theory Spec2Isabelle
  imports Main "HOL-Library.Word" "HOL-Library.Multiset"
begin

section \<open>The schema\<close>

text \<open>
  The tables of the first migration, reduced to the columns the balance trigger, the
  referential actions and the dashboard read. Text columns (name, description, colour,
  currency) and the timestamps play no part in any of them and are left out; records are
  extensible, so every statement below also holds for rows that carry them.

  A \<^verbatim>\<open>UUID\<close> is a 128-bit value. A \<^verbatim>\<open>DATE\<close> is a day number. The users table belongs to the
  identity service; \<^verbatim>\<open>user_id\<close> is a plain value here, and the signed-in user
  (\<^verbatim>\<open>auth.uid()\<close>) is a parameter of every statement.
\<close>

type_synonym uuid = "128 word"

datatype transaction_type = income | expense

subsection \<open>\<^verbatim>\<open>DECIMAL(15,2)\<close>\<close>

text \<open>
  A value of a \<^verbatim>\<open>DECIMAL(15,2)\<close> column is a number with two fraction digits, held here in
  hundredths (\<open>150.00\<close> is \<open>Num 15000\<close>), or the special value \<^verbatim>\<open>NaN\<close>, which PostgreSQL's
  numeric type stores whatever the precision. \<^verbatim>\<open>NaN\<close> absorbs every addition and
  subtraction, and equals itself. The infinities of the numeric type are not values of
  such a column: a column with a precision refuses them, as it refuses a number that
  does not fit.
\<close>

datatype decimal = Num int | NaN

instantiation decimal :: "{comm_monoid_add, uminus, minus}"
begin

definition zero_decimal :: decimal where
  "zero_decimal = Num 0"

definition plus_decimal :: "decimal \<Rightarrow> decimal \<Rightarrow> decimal" where
  "plus_decimal x y = (case x of NaN \<Rightarrow> NaN | Num a \<Rightarrow> (case y of NaN \<Rightarrow> NaN | Num b \<Rightarrow> Num (a + b)))"

definition uminus_decimal :: "decimal \<Rightarrow> decimal" where
  "uminus_decimal x = (case x of NaN \<Rightarrow> NaN | Num a \<Rightarrow> Num (- a))"

definition minus_decimal :: "decimal \<Rightarrow> decimal \<Rightarrow> decimal" where
  "minus_decimal x y = (case x of NaN \<Rightarrow> NaN | Num a \<Rightarrow> (case y of NaN \<Rightarrow> NaN | Num b \<Rightarrow> Num (a - b)))"

instance
proof
  fix a b c :: decimal
  show "a + b + c = a + (b + c)"
    by (simp add: plus_decimal_def split: decimal.splits)
  show "a + b = b + a"
    by (simp add: plus_decimal_def split: decimal.splits)
  show "0 + a = a"
    by (simp add: plus_decimal_def zero_decimal_def split: decimal.splits)
qed

end

text \<open>
  A number fits the column when it has at most 13 digits before the point, so when its
  magnitude in hundredths is below \<open>10 ^ 15\<close>; storing any other number raises a numeric
  overflow. \<^verbatim>\<open>NaN\<close> is stored as it is.
\<close>

definition decimal_15_2 :: "decimal \<Rightarrow> bool" where
  "decimal_15_2 v = (case v of NaN \<Rightarrow> True | Num i \<Rightarrow> \<bar>i\<bar> < 10 ^ 15)"

subsection \<open>The tables\<close>

record account =
  acc_id :: uuid
  acc_user_id :: uuid
  initial_balance :: decimal
  current_balance :: decimal

record category =
  cat_id :: uuid
  cat_user_id :: uuid
  cat_transaction_type :: transaction_type

record transaction =
  tx_id :: uuid
  tx_user_id :: uuid
  account_id :: uuid
  category_id :: "uuid option"
  tx_type :: transaction_type
  amount :: decimal
  date :: int

record database =
  accounts :: "account list"
  categories :: "category list"
  transactions :: "transaction list"

definition empty_database :: database where
  "empty_database = \<lparr>accounts = [], categories = [], transactions = []\<rparr>"

text \<open>The conditions under which PostgreSQL aborts a statement of this schema.\<close>

datatype error =
    not_null_violation
  | invalid_text_representation
  | numeric_value_out_of_range
  | unique_violation
  | foreign_key_violation
  | insufficient_privilege

section \<open>The trigger function \<^verbatim>\<open>update_account_balance\<close>\<close>

text \<open>
  \<^verbatim>\<open>CASE WHEN type = 'income' THEN amount WHEN type = 'expense' THEN -amount END\<close>.
  The column is of the two-valued enum type and \<^verbatim>\<open>NOT NULL\<close>, so one of the two branches
  is always taken.
\<close>

definition signed_case :: "transaction_type \<Rightarrow> decimal \<Rightarrow> decimal" where
  "signed_case ty amt = (case ty of income \<Rightarrow> amt | expense \<Rightarrow> - amt)"

text \<open>
  \<^verbatim>\<open>UPDATE public.accounts SET current_balance = f(current_balance) WHERE id = aid\<close>:
  every row with that id gets the new value, which has to fit the column. The function
  is \<^verbatim>\<open>SECURITY DEFINER\<close>, so the row policies of \<^verbatim>\<open>accounts\<close> do not hide any row from it.
\<close>

definition set_current_balance ::
  "(decimal \<Rightarrow> decimal) \<Rightarrow> uuid \<Rightarrow> account list \<Rightarrow> error + account list" where
  "set_current_balance f aid accs =
     (if list_ex (\<lambda>a. acc_id a = aid \<and> \<not> decimal_15_2 (f (current_balance a))) accs
      then Inl numeric_value_out_of_range
      else Inr (map (\<lambda>a. if acc_id a = aid then a\<lparr>current_balance := f (current_balance a)\<rparr> else a) accs))"

text \<open>One firing of the row trigger: \<^verbatim>\<open>TG_OP\<close> with the row images it comes with.\<close>

datatype trigger_event =
    INSERT transaction
  | UPDATE transaction transaction
  | DELETE transaction

fun update_account_balance :: "trigger_event \<Rightarrow> account list \<Rightarrow> error + account list" where
  "update_account_balance (INSERT NEW) accs =
     set_current_balance (\<lambda>b. b + signed_case (tx_type NEW) (amount NEW)) (account_id NEW) accs"
| "update_account_balance (UPDATE OLD NEW) accs =
     (case set_current_balance (\<lambda>b. b - signed_case (tx_type OLD) (amount OLD)) (account_id OLD) accs of
        Inl e \<Rightarrow> Inl e
      | Inr reverted \<Rightarrow>
          set_current_balance (\<lambda>b. b + signed_case (tx_type NEW) (amount NEW)) (account_id NEW) reverted)"
| "update_account_balance (DELETE OLD) accs =
     set_current_balance (\<lambda>b. b - signed_case (tx_type OLD) (amount OLD)) (account_id OLD) accs"

text \<open>
  \<^verbatim>\<open>update_account_balance_trigger\<close> is \<^verbatim>\<open>AFTER INSERT OR UPDATE OR DELETE ... FOR EACH ROW\<close>:
  a statement on \<^verbatim>\<open>transactions\<close> fires the function once for every row it touched.
\<close>

fun fire_triggers :: "trigger_event list \<Rightarrow> account list \<Rightarrow> error + account list" where
  "fire_triggers [] accs = Inr accs"
| "fire_triggers (ev # evs) accs =
     (case update_account_balance ev accs of
        Inl e \<Rightarrow> Inl e
      | Inr accs' \<Rightarrow> fire_triggers evs accs')"

section \<open>Statements\<close>

subsection \<open>Values as a client supplies them\<close>

text \<open>
  The values of an \<^verbatim>\<open>INSERT INTO transactions\<close>. \<open>None\<close> is a missing or null value.
  The id and the date have defaults (\<^verbatim>\<open>gen_random_uuid()\<close>, \<^verbatim>\<open>CURRENT_DATE\<close>) and are given
  here after the default was taken. The type arrives as text and is read by the enum's
  input function. The amount arrives as a numeric value: a number, given in hundredths,
  or \<^verbatim>\<open>NaN\<close>, which a client of the interface can send as the text \<^verbatim>\<open>'NaN'\<close>.
\<close>

record transaction_values =
  v_id :: uuid
  v_user_id :: "uuid option"
  v_account_id :: "uuid option"
  v_category_id :: "uuid option"
  v_type :: "string option"
  v_amount :: "decimal option"
  v_date :: int

text \<open>One column of the \<^verbatim>\<open>SET\<close> list of an \<^verbatim>\<open>UPDATE\<close>: absent, null, or a value.\<close>

datatype 'a assignment = Keep | SetNull | SetTo 'a

record transaction_set =
  set_user_id :: "uuid assignment"
  set_account_id :: "uuid assignment"
  set_category_id :: "uuid assignment"
  set_type :: "string assignment"
  set_amount :: "decimal assignment"
  set_date :: "int assignment"

record account_values =
  av_id :: uuid
  av_user_id :: uuid
  av_initial_balance :: decimal
  av_current_balance :: decimal

record category_values =
  cv_id :: uuid
  cv_user_id :: uuid
  cv_transaction_type :: string

text \<open>\<^verbatim>\<open>CREATE TYPE public.transaction_type AS ENUM ('income', 'expense')\<close>: its input function.\<close>

definition transaction_type_in :: "string \<Rightarrow> error + transaction_type" where
  "transaction_type_in txt =
     (if txt = ''income'' then Inr income
      else if txt = ''expense'' then Inr expense
      else Inl invalid_text_representation)"

definition transaction_type_out :: "transaction_type \<Rightarrow> string" where
  "transaction_type_out ty = (case ty of income \<Rightarrow> ''income'' | expense \<Rightarrow> ''expense'')"

subsection \<open>\<^verbatim>\<open>INSERT INTO transactions\<close>\<close>

text \<open>The supplied values become a row: enum input, numeric precision, \<^verbatim>\<open>NOT NULL\<close>.\<close>

definition new_transaction :: "transaction_values \<Rightarrow> error + transaction" where
  "new_transaction v =
     (case v_type v of
        None \<Rightarrow> Inl not_null_violation
      | Some txt \<Rightarrow>
     (case transaction_type_in txt of
        Inl e \<Rightarrow> Inl e
      | Inr ty \<Rightarrow>
     (case v_amount v of
        None \<Rightarrow> Inl not_null_violation
      | Some amt \<Rightarrow>
     if \<not> decimal_15_2 amt then Inl numeric_value_out_of_range else
     (case v_user_id v of
        None \<Rightarrow> Inl not_null_violation
      | Some owner \<Rightarrow>
     (case v_account_id v of
        None \<Rightarrow> Inl not_null_violation
      | Some aid \<Rightarrow>
          Inr \<lparr>tx_id = v_id v, tx_user_id = owner, account_id = aid,
               category_id = v_category_id v, tx_type = ty, amount = amt,
               date = v_date v\<rparr>)))))"

text \<open>
  What the table asks of a row written by user \<open>uid\<close>: the row policy
  (\<^verbatim>\<open>auth.uid() = user_id\<close>) and the two foreign keys into this schema.
\<close>

definition row_accepted :: "uuid \<Rightarrow> database \<Rightarrow> transaction \<Rightarrow> error option" where
  "row_accepted uid db r =
     (if tx_user_id r \<noteq> uid then Some insufficient_privilege
      else if account_id r \<notin> acc_id ` set (accounts db) then Some foreign_key_violation
      else if (case category_id r of None \<Rightarrow> False | Some c \<Rightarrow> c \<notin> cat_id ` set (categories db))
        then Some foreign_key_violation
      else None)"

definition insert_transaction :: "uuid \<Rightarrow> transaction_values \<Rightarrow> database \<Rightarrow> error + database" where
  "insert_transaction uid v db =
     (case new_transaction v of
        Inl e \<Rightarrow> Inl e
      | Inr NEW \<Rightarrow>
     (case row_accepted uid db NEW of
        Some e \<Rightarrow> Inl e
      | None \<Rightarrow>
     if tx_id NEW \<in> tx_id ` set (transactions db) then Inl unique_violation else
     (case fire_triggers [INSERT NEW] (accounts db) of
        Inl e \<Rightarrow> Inl e
      | Inr accs \<Rightarrow> Inr (db\<lparr>accounts := accs, transactions := transactions db @ [NEW]\<rparr>))))"

subsection \<open>\<^verbatim>\<open>UPDATE transactions\<close>\<close>

fun coerce_type :: "string assignment \<Rightarrow> error + transaction_type assignment" where
  "coerce_type Keep = Inr Keep"
| "coerce_type SetNull = Inr SetNull"
| "coerce_type (SetTo txt) =
     (case transaction_type_in txt of Inl e \<Rightarrow> Inl e | Inr ty \<Rightarrow> Inr (SetTo ty))"

fun coerce_amount :: "decimal assignment \<Rightarrow> error + decimal assignment" where
  "coerce_amount Keep = Inr Keep"
| "coerce_amount SetNull = Inr SetNull"
| "coerce_amount (SetTo amt) =
     (if decimal_15_2 amt then Inr (SetTo amt) else Inl numeric_value_out_of_range)"

fun assign_not_null :: "'a assignment \<Rightarrow> 'a \<Rightarrow> error + 'a" where
  "assign_not_null Keep old = Inr old"
| "assign_not_null SetNull old = Inl not_null_violation"
| "assign_not_null (SetTo x) old = Inr x"

fun assign_nullable :: "'a assignment \<Rightarrow> 'a option \<Rightarrow> 'a option" where
  "assign_nullable Keep old = old"
| "assign_nullable SetNull old = None"
| "assign_nullable (SetTo x) old = Some x"

text \<open>The new image of a row under a \<^verbatim>\<open>SET\<close> list whose type and amount were read already.\<close>

definition assign_row ::
  "transaction_set \<Rightarrow> transaction_type assignment \<Rightarrow> decimal assignment \<Rightarrow> transaction \<Rightarrow> error + transaction" where
  "assign_row p ty amt OLD =
     (case assign_not_null (set_user_id p) (tx_user_id OLD) of Inl e \<Rightarrow> Inl e | Inr u \<Rightarrow>
     (case assign_not_null (set_account_id p) (account_id OLD) of Inl e \<Rightarrow> Inl e | Inr a \<Rightarrow>
     (case assign_not_null ty (tx_type OLD) of Inl e \<Rightarrow> Inl e | Inr t \<Rightarrow>
     (case assign_not_null amt (amount OLD) of Inl e \<Rightarrow> Inl e | Inr m \<Rightarrow>
     (case assign_not_null (set_date p) (date OLD) of Inl e \<Rightarrow> Inl e | Inr d \<Rightarrow>
        Inr (OLD\<lparr>tx_user_id := u, account_id := a,
                  category_id := assign_nullable (set_category_id p) (category_id OLD),
                  tx_type := t, amount := m, date := d\<rparr>))))))"

text \<open>
  A statement that rewrites the rows satisfying \<open>affected\<close>: the new table, and one
  \<^verbatim>\<open>UPDATE\<close> event per rewritten row, in table order.
\<close>

fun update_rows ::
  "(transaction \<Rightarrow> bool) \<Rightarrow> (transaction \<Rightarrow> error + transaction) \<Rightarrow> transaction list
     \<Rightarrow> error + transaction list \<times> trigger_event list" where
  "update_rows affected new [] = Inr ([], [])"
| "update_rows affected new (OLD # rows) =
     (if affected OLD then
        (case new OLD of
           Inl e \<Rightarrow> Inl e
         | Inr NEW \<Rightarrow>
             (case update_rows affected new rows of
                Inl e \<Rightarrow> Inl e
              | Inr (rows', evs) \<Rightarrow> Inr (NEW # rows', UPDATE OLD NEW # evs)))
      else
        (case update_rows affected new rows of
           Inl e \<Rightarrow> Inl e
         | Inr (rows', evs) \<Rightarrow> Inr (OLD # rows', evs)))"

text \<open>
  \<^verbatim>\<open>UPDATE transactions SET ... WHERE id = tid\<close> by user \<open>uid\<close>. The row policy hides the
  rows of other users from the statement. The primary key itself is not assigned.
\<close>

definition update_transaction :: "uuid \<Rightarrow> uuid \<Rightarrow> transaction_set \<Rightarrow> database \<Rightarrow> error + database" where
  "update_transaction uid tid p db =
     (case coerce_type (set_type p) of
        Inl e \<Rightarrow> Inl e
      | Inr ty \<Rightarrow>
     (case coerce_amount (set_amount p) of
        Inl e \<Rightarrow> Inl e
      | Inr amt \<Rightarrow>
     (case update_rows (\<lambda>r. tx_id r = tid \<and> tx_user_id r = uid)
             (\<lambda>OLD. case assign_row p ty amt OLD of
                       Inl e \<Rightarrow> Inl e
                     | Inr NEW \<Rightarrow> (case row_accepted uid db NEW of Some e \<Rightarrow> Inl e | None \<Rightarrow> Inr NEW))
             (transactions db) of
        Inl e \<Rightarrow> Inl e
      | Inr (rows, evs) \<Rightarrow>
     (case fire_triggers evs (accounts db) of
        Inl e \<Rightarrow> Inl e
      | Inr accs \<Rightarrow> Inr (db\<lparr>accounts := accs, transactions := rows\<rparr>)))))"

subsection \<open>\<^verbatim>\<open>DELETE FROM transactions\<close>\<close>

definition delete_rows :: "(transaction \<Rightarrow> bool) \<Rightarrow> transaction list \<Rightarrow> transaction list \<times> trigger_event list" where
  "delete_rows affected rows = (filter (\<lambda>r. \<not> affected r) rows, map DELETE (filter affected rows))"

definition delete_transaction :: "uuid \<Rightarrow> uuid \<Rightarrow> database \<Rightarrow> error + database" where
  "delete_transaction uid tid db =
     (case delete_rows (\<lambda>r. tx_id r = tid \<and> tx_user_id r = uid) (transactions db) of
        (rows, evs) \<Rightarrow>
     (case fire_triggers evs (accounts db) of
        Inl e \<Rightarrow> Inl e
      | Inr accs \<Rightarrow> Inr (db\<lparr>accounts := accs, transactions := rows\<rparr>)))"

subsection \<open>Accounts and categories\<close>

definition insert_account :: "uuid \<Rightarrow> account_values \<Rightarrow> database \<Rightarrow> error + database" where
  "insert_account uid v db =
     (if \<not> decimal_15_2 (av_initial_balance v) \<or> \<not> decimal_15_2 (av_current_balance v)
        then Inl numeric_value_out_of_range
      else if av_user_id v \<noteq> uid then Inl insufficient_privilege
      else if av_id v \<in> acc_id ` set (accounts db) then Inl unique_violation
      else Inr (db\<lparr>accounts := accounts db @
                   [\<lparr>acc_id = av_id v, acc_user_id = av_user_id v,
                     initial_balance = av_initial_balance v,
                     current_balance = av_current_balance v\<rparr>]\<rparr>))"

text \<open>
  \<^verbatim>\<open>DELETE FROM accounts WHERE id = aid\<close>. With the account row gone, the foreign key
  \<^verbatim>\<open>account_id ... ON DELETE CASCADE\<close> deletes the transactions that reference it; the
  referential action is not subject to the row policies. Each of those deletions fires
  the balance trigger, on the accounts that are left.
\<close>

definition delete_account :: "uuid \<Rightarrow> uuid \<Rightarrow> database \<Rightarrow> error + database" where
  "delete_account uid aid db =
     (if \<not> list_ex (\<lambda>a. acc_id a = aid \<and> acc_user_id a = uid) (accounts db) then Inr db
      else
        (case delete_rows (\<lambda>r. account_id r = aid) (transactions db) of
           (rows, evs) \<Rightarrow>
        (case fire_triggers evs (filter (\<lambda>a. \<not> (acc_id a = aid \<and> acc_user_id a = uid)) (accounts db)) of
           Inl e \<Rightarrow> Inl e
         | Inr accs \<Rightarrow> Inr (db\<lparr>accounts := accs, transactions := rows\<rparr>))))"

definition insert_category :: "uuid \<Rightarrow> category_values \<Rightarrow> database \<Rightarrow> error + database" where
  "insert_category uid v db =
     (case transaction_type_in (cv_transaction_type v) of
        Inl e \<Rightarrow> Inl e
      | Inr ty \<Rightarrow>
          if cv_user_id v \<noteq> uid then Inl insufficient_privilege
          else if cv_id v \<in> cat_id ` set (categories db) then Inl unique_violation
          else Inr (db\<lparr>categories := categories db @
                       [\<lparr>cat_id = cv_id v, cat_user_id = cv_user_id v,
                         cat_transaction_type = ty\<rparr>]\<rparr>))"

text \<open>
  \<^verbatim>\<open>DELETE FROM categories WHERE id = cid\<close>. The foreign key
  \<^verbatim>\<open>category_id ... ON DELETE SET NULL\<close> rewrites the referencing transactions, which is
  an \<^verbatim>\<open>UPDATE\<close> of each of them and fires the balance trigger.
\<close>

definition delete_category :: "uuid \<Rightarrow> uuid \<Rightarrow> database \<Rightarrow> error + database" where
  "delete_category uid cid db =
     (if \<not> list_ex (\<lambda>c. cat_id c = cid \<and> cat_user_id c = uid) (categories db) then Inr db
      else
        (case update_rows (\<lambda>r. category_id r = Some cid) (\<lambda>OLD. Inr (OLD\<lparr>category_id := None\<rparr>))
                (transactions db) of
           Inl e \<Rightarrow> Inl e
         | Inr (rows, evs) \<Rightarrow>
        (case fire_triggers evs (accounts db) of
           Inl e \<Rightarrow> Inl e
         | Inr accs \<Rightarrow>
             Inr (db\<lparr>accounts := accs,
                     categories := filter (\<lambda>c. \<not> (cat_id c = cid \<and> cat_user_id c = uid)) (categories db),
                     transactions := rows\<rparr>))))"

subsection \<open>A statement, and the database after it\<close>

datatype statement =
    INSERT_INTO_accounts account_values
  | DELETE_FROM_accounts uuid
  | INSERT_INTO_categories category_values
  | DELETE_FROM_categories uuid
  | INSERT_INTO_transactions transaction_values
  | UPDATE_transactions uuid transaction_set
  | DELETE_FROM_transactions uuid

fun execute :: "uuid \<Rightarrow> statement \<Rightarrow> database \<Rightarrow> error + database" where
  "execute uid (INSERT_INTO_accounts v) db = insert_account uid v db"
| "execute uid (DELETE_FROM_accounts aid) db = delete_account uid aid db"
| "execute uid (INSERT_INTO_categories v) db = insert_category uid v db"
| "execute uid (DELETE_FROM_categories cid) db = delete_category uid cid db"
| "execute uid (INSERT_INTO_transactions v) db = insert_transaction uid v db"
| "execute uid (UPDATE_transactions tid p) db = update_transaction uid tid p db"
| "execute uid (DELETE_FROM_transactions tid) db = delete_transaction uid tid db"

text \<open>A statement is atomic: when it is aborted, the database is what it was.\<close>

definition after_statement :: "uuid \<Rightarrow> statement \<Rightarrow> database \<Rightarrow> database" where
  "after_statement uid q db = (case execute uid q db of Inl e \<Rightarrow> db | Inr db' \<Rightarrow> db')"

text \<open>The databases after each statement of a sequence, each issued by some user.\<close>

fun history :: "database \<Rightarrow> (uuid \<times> statement) list \<Rightarrow> database list" where
  "history db [] = []"
| "history db ((uid, q) # qs) = after_statement uid q db # history (after_statement uid q db) qs"

fun transaction_mutation :: "statement \<Rightarrow> bool" where
  "transaction_mutation (INSERT_INTO_transactions v) = True"
| "transaction_mutation (UPDATE_transactions tid p) = True"
| "transaction_mutation (DELETE_FROM_transactions tid) = True"
| "transaction_mutation q = False"

section \<open>The application\<close>

subsection \<open>The forms\<close>

text \<open>
  \<^verbatim>\<open>AccountsManager.handleAddAccount\<close>: nothing happens without a signed-in user; otherwise
  the account is inserted with both balances set to
  \<^verbatim>\<open>parseFloat(newAccount.initialBalance) || 0\<close>. The field is given as the number it
  parses to, in hundredths, or \<open>None\<close> when it does not parse.
\<close>

definition handleAddAccount :: "uuid option \<Rightarrow> uuid \<Rightarrow> int option \<Rightarrow> database \<Rightarrow> error + database" where
  "handleAddAccount user new_id initialBalance db =
     (case user of
        None \<Rightarrow> Inr db
      | Some u \<Rightarrow>
          execute u
            (INSERT_INTO_accounts
               \<lparr>av_id = new_id, av_user_id = u,
                av_initial_balance = (case initialBalance of None \<Rightarrow> Num 0 | Some b \<Rightarrow> Num b),
                av_current_balance = (case initialBalance of None \<Rightarrow> Num 0 | Some b \<Rightarrow> Num b)\<rparr>)
            db)"

text \<open>
  \<^verbatim>\<open>AddTransactionForm.handleSubmit\<close>. The form state: the chosen account and category
  (\<open>None\<close> for the empty selection), the amount field as the number \<^verbatim>\<open>parseFloat\<close> reads
  from it, in hundredths (\<open>None\<close> when the field does not parse: a JavaScript \<^verbatim>\<open>NaN\<close> is sent
  as null), and the date. The amount is sent as it was parsed; the form checks neither
  its sign nor its size. An empty account selection is sent as it is and refused by the
  column, as a missing value is.
\<close>

record form_data =
  accountId :: "uuid option"
  categoryId :: "uuid option"
  amount_field :: "int option"
  date_field :: int

definition handleSubmit ::
  "uuid option \<Rightarrow> uuid \<Rightarrow> transaction_type \<Rightarrow> form_data \<Rightarrow> database \<Rightarrow> error + database" where
  "handleSubmit user new_id type formData db =
     (case user of
        None \<Rightarrow> Inr db
      | Some u \<Rightarrow>
          execute u
            (INSERT_INTO_transactions
               \<lparr>v_id = new_id, v_user_id = Some u, v_account_id = accountId formData,
                v_category_id = categoryId formData, v_type = Some (transaction_type_out type),
                v_amount = map_option Num (amount_field formData), v_date = date_field formData\<rparr>)
            db)"

subsection \<open>The dashboard\<close>

text \<open>
  The select policies show a user the rows that carry the user's id.
\<close>

definition select_accounts :: "uuid \<Rightarrow> database \<Rightarrow> account list" where
  "select_accounts uid db = filter (\<lambda>a. acc_user_id a = uid) (accounts db)"

definition select_transactions :: "uuid \<Rightarrow> database \<Rightarrow> transaction list" where
  "select_transactions uid db = filter (\<lambda>t. tx_user_id t = uid) (transactions db)"

text \<open>
  \<^verbatim>\<open>.order('date', { ascending: false })\<close> asks for the rows by date, latest first, and
  says nothing about rows of one date: which of them comes first is the database's
  choice, and may differ from one query to the next. So an ordered select is a relation
  between the rows and an answer: the answer holds the same rows, in an order the query
  allows. \<^verbatim>\<open>.order('created_at', { ascending: true })\<close> orders the accounts by a column
  that is not modelled; any arrangement of the rows is taken to be a possible answer.
\<close>

definition order_by_date_desc :: "transaction list \<Rightarrow> transaction list \<Rightarrow> bool" where
  "order_by_date_desc rows ys \<longleftrightarrow> mset ys = mset rows \<and> sorted_wrt (\<lambda>a b. date b \<le> date a) ys"

definition order_by_created_at :: "account list \<Rightarrow> account list \<Rightarrow> bool" where
  "order_by_created_at rows accs \<longleftrightarrow> mset accs = mset rows"

text \<open>
  \<^verbatim>\<open>Dashboard.fetchData\<close>, given the order \<open>accs\<close> in which the database answers the select
  on accounts and the order \<open>ys\<close> in which it arranges the user's transactions by date:
  the component keeps all the accounts and, by \<^verbatim>\<open>.limit(50)\<close>, the first 50 transactions.
  The result is \<open>None\<close> when \<open>accs\<close> and \<open>ys\<close> are not answers the database can give.
\<close>

definition fetchData ::
  "uuid \<Rightarrow> database \<Rightarrow> account list \<Rightarrow> transaction list \<Rightarrow> (account list \<times> transaction list) option" where
  "fetchData uid db accs ys =
     (if order_by_created_at (select_accounts uid db) accs \<and>
         order_by_date_desc (select_transactions uid db) ys
      then Some (accs, take 50 ys)
      else None)"

text \<open>
  The totals are computed in the browser, on JavaScript values. Its arithmetic is not
  modelled; it is a parameter: the value \<open>0\<close>, the operator \<^verbatim>\<open>+\<close> on two numbers, the
  function \<^verbatim>\<open>Number\<close>, the test that makes \<^verbatim>\<open>x || 0\<close> take \<open>0\<close>, and the value a numeric
  column has in the parsed response. Every statement about the totals holds for
  whatever these are, and so for the doubles of any browser.
\<close>

record 'n javascript =
  js_zero :: 'n
  js_plus :: "'n \<Rightarrow> 'n \<Rightarrow> 'n"
  js_Number :: "'n \<Rightarrow> 'n"
  js_falsy :: "'n \<Rightarrow> bool"
  js_numeric :: "decimal \<Rightarrow> 'n"

text \<open>
  \<^verbatim>\<open>Dashboard.calculateTotals\<close>, over the fetched accounts and transactions. The selected
  account is \<open>None\<close> for \<^verbatim>\<open>'all'\<close>. The two \<^verbatim>\<open>reduce\<close> calls fold from the left, starting at
  \<open>0\<close>; a selected account that is not among the fetched ones gives \<^verbatim>\<open>undefined || 0\<close>.
\<close>

record 'n totals =
  totalIncome :: 'n
  totalExpenses :: 'n
  totalBalance :: 'n

definition calculateTotals ::
  "'n javascript \<Rightarrow> uuid option \<Rightarrow> account list \<Rightarrow> transaction list \<Rightarrow> 'n totals" where
  "calculateTotals js selectedAccount accs txs =
     (let filteredTransactions =
            (case selectedAccount of
               None \<Rightarrow> txs
             | Some sel \<Rightarrow> filter (\<lambda>t. account_id t = sel) txs)
      in \<lparr>totalIncome =
             foldl (\<lambda>sum t. js_plus js sum (js_Number js (js_numeric js (amount t)))) (js_zero js)
               (filter (\<lambda>t. tx_type t = income) filteredTransactions),
          totalExpenses =
             foldl (\<lambda>sum t. js_plus js sum (js_Number js (js_numeric js (amount t)))) (js_zero js)
               (filter (\<lambda>t. tx_type t = expense) filteredTransactions),
          totalBalance =
             (case selectedAccount of
                None \<Rightarrow>
                  foldl (\<lambda>sum acc. js_plus js sum (js_Number js (js_numeric js (current_balance acc))))
                    (js_zero js) accs
              | Some sel \<Rightarrow>
                  (case find (\<lambda>acc. acc_id acc = sel) accs of
                     None \<Rightarrow> js_zero js
                   | Some acc \<Rightarrow>
                       if js_falsy js (js_numeric js (current_balance acc)) then js_zero js
                       else js_numeric js (current_balance acc)))\<rparr>)"

section \<open>Example data\<close>

text \<open>
  A small database used to exercise the theorems: user 7 owns account 1 (opened with
  100.00, now at 120.00) and the empty account 2, the expense category 5, an income of
  50.00 and an expense of 30.00 on account 1, the expense filed under category 5.
\<close>

definition example_db :: database where
  "example_db =
     \<lparr>accounts =
        [\<lparr>acc_id = 1, acc_user_id = 7, initial_balance = Num 10000, current_balance = Num 12000\<rparr>,
         \<lparr>acc_id = 2, acc_user_id = 7, initial_balance = Num 0, current_balance = Num 0\<rparr>],
      categories = [\<lparr>cat_id = 5, cat_user_id = 7, cat_transaction_type = expense\<rparr>],
      transactions =
        [\<lparr>tx_id = 11, tx_user_id = 7, account_id = 1, category_id = None,
          tx_type = income, amount = Num 5000, date = 1\<rparr>,
         \<lparr>tx_id = 12, tx_user_id = 7, account_id = 1, category_id = Some 5,
          tx_type = expense, amount = Num 3000, date = 2\<rparr>]\<rparr>"

text \<open>A \<^verbatim>\<open>SET\<close> list that assigns nothing.\<close>

definition set_nothing :: transaction_set where
  "set_nothing =
     \<lparr>set_user_id = Keep, set_account_id = Keep, set_category_id = Keep,
      set_type = Keep, set_amount = Keep, set_date = Keep\<rparr>"

text \<open>
  A user with 51 transactions: incomes of 1.00 on days 0 to 50, all on account 1, which
  was opened empty and stands at 51.00.
\<close>

definition busy_db :: database where
  "busy_db =
     \<lparr>accounts = [\<lparr>acc_id = 1, acc_user_id = 7, initial_balance = Num 0, current_balance = Num 5100\<rparr>],
      categories = [],
      transactions =
        map (\<lambda>n. \<lparr>tx_id = of_nat n, tx_user_id = 7, account_id = 1, category_id = None,
                   tx_type = income, amount = Num 100, date = int n\<rparr>) [0..<51]\<rparr>"

text \<open>
  Exact decimal arithmetic in the place of the browser's: one arithmetic among those the
  statements about the totals cover.
\<close>

definition exact_arithmetic :: "decimal javascript" where
  "exact_arithmetic =
     \<lparr>js_zero = Num 0, js_plus = (\<lambda>x y. x + y), js_Number = (\<lambda>x. x),
      js_falsy = (\<lambda>x. x = Num 0), js_numeric = (\<lambda>x. x)\<rparr>"

section \<open>The balance invariant\<close>

text \<open>
  The specification's signed contribution of a transaction: \<open>+amount\<close> for income,
  \<open>-amount\<close> for expense. It is stated here in the specification's words, apart from the
  trigger's \<^verbatim>\<open>CASE\<close> expression, and compared with it below.
\<close>

definition signed_contribution :: "transaction_type \<Rightarrow> decimal \<Rightarrow> decimal" where
  "signed_contribution ty m = (if ty = income then m else - m)"

definition contribution :: "transaction \<Rightarrow> decimal" where
  "contribution t = signed_contribution (tx_type t) (amount t)"

text \<open>The sum of the contributions of the transactions that reference an account id.\<close>

definition tally :: "transaction list \<Rightarrow> uuid \<Rightarrow> decimal" where
  "tally txs aid = sum_list (map contribution (filter (\<lambda>t. account_id t = aid) txs))"

text \<open>
  The invariant: every account's \<^verbatim>\<open>current_balance\<close> is its \<^verbatim>\<open>initial_balance\<close> plus the
  signed contributions of the transactions that reference it now.
\<close>

definition balances_consistent :: "database \<Rightarrow> bool" where
  "balances_consistent db \<longleftrightarrow>
     list_all (\<lambda>a. current_balance a = initial_balance a + tally (transactions db) (acc_id a)) (accounts db)"

text \<open>
  Amounts that are numbers: no stored transaction has the amount \<^verbatim>\<open>NaN\<close>, and a statement
  supplies none.
\<close>

definition number_amounts :: "database \<Rightarrow> bool" where
  "number_amounts db \<longleftrightarrow> list_all (\<lambda>t. amount t \<noteq> NaN) (transactions db)"

fun supplies_number :: "statement \<Rightarrow> bool" where
  "supplies_number (INSERT_INTO_transactions v) \<longleftrightarrow> v_amount v \<noteq> Some NaN"
| "supplies_number (UPDATE_transactions tid p) \<longleftrightarrow> set_amount p \<noteq> SetTo NaN"
| "supplies_number q \<longleftrightarrow> True"

section \<open>What the trigger does to an account row\<close>

text \<open>
  The row after one \<^verbatim>\<open>UPDATE accounts SET current_balance = current_balance + c\<close> aimed at
  \<open>aid\<close>, after one firing of the trigger, and after the firings of a statement.
\<close>

definition bump :: "uuid \<Rightarrow> decimal \<Rightarrow> account \<Rightarrow> account" where
  "bump aid c a = (if acc_id a = aid then a\<lparr>current_balance := current_balance a + c\<rparr> else a)"

fun apply_event :: "trigger_event \<Rightarrow> account \<Rightarrow> account" where
  "apply_event (INSERT NEW) a = bump (account_id NEW) (contribution NEW) a"
| "apply_event (UPDATE OLD NEW) a =
     bump (account_id NEW) (contribution NEW) (bump (account_id OLD) (- contribution OLD) a)"
| "apply_event (DELETE OLD) a = bump (account_id OLD) (- contribution OLD) a"

fun apply_events :: "trigger_event list \<Rightarrow> account \<Rightarrow> account" where
  "apply_events [] a = a"
| "apply_events (ev # evs) a = apply_events evs (apply_event ev a)"

text \<open>
  For amounts that are numbers: the number of a value, what one firing adds to the
  balance of account \<open>aid\<close>, the same summed over the firings of a statement, and a
  balance moved by such a number.
\<close>

fun number_of :: "decimal \<Rightarrow> int" where
  "number_of (Num i) = i"
| "number_of NaN = 0"

fun number_event :: "trigger_event \<Rightarrow> bool" where
  "number_event (INSERT NEW) \<longleftrightarrow> amount NEW \<noteq> NaN"
| "number_event (UPDATE OLD NEW) \<longleftrightarrow> amount OLD \<noteq> NaN \<and> amount NEW \<noteq> NaN"
| "number_event (DELETE OLD) \<longleftrightarrow> amount OLD \<noteq> NaN"

fun effect :: "trigger_event \<Rightarrow> uuid \<Rightarrow> int" where
  "effect (INSERT NEW) aid = (if account_id NEW = aid then number_of (contribution NEW) else 0)"
| "effect (UPDATE OLD NEW) aid =
     (if account_id NEW = aid then number_of (contribution NEW) else 0) -
     (if account_id OLD = aid then number_of (contribution OLD) else 0)"
| "effect (DELETE OLD) aid = - (if account_id OLD = aid then number_of (contribution OLD) else 0)"

definition effects :: "trigger_event list \<Rightarrow> uuid \<Rightarrow> int" where
  "effects evs aid = sum_list (map (\<lambda>ev. effect ev aid) evs)"

definition credit :: "(uuid \<Rightarrow> int) \<Rightarrow> account \<Rightarrow> account" where
  "credit d a = a\<lparr>current_balance := current_balance a + Num (d (acc_id a))\<rparr>"

section \<open>Stored states\<close>

text \<open>
  What the schema guarantees of every stored state: the primary keys are unique, the
  decimal columns hold values that fit them, and the two foreign keys of a transaction
  point at rows that exist.
\<close>

definition well_formed :: "database \<Rightarrow> bool" where
  "well_formed db \<longleftrightarrow>
     distinct (map acc_id (accounts db)) \<and>
     distinct (map cat_id (categories db)) \<and>
     distinct (map tx_id (transactions db)) \<and>
     list_all (\<lambda>a. decimal_15_2 (initial_balance a) \<and> decimal_15_2 (current_balance a)) (accounts db) \<and>
     list_all (\<lambda>t. decimal_15_2 (amount t) \<and>
                   account_id t \<in> acc_id ` set (accounts db) \<and>
                   (case category_id t of None \<Rightarrow> True | Some c \<Rightarrow> c \<in> cat_id ` set (categories db)))
       (transactions db)"

text \<open>
  What the trigger adds to that: a transaction with the amount \<^verbatim>\<open>NaN\<close> has made the
  balance of its account \<^verbatim>\<open>NaN\<close>, and nothing brings such a balance back to a number.
\<close>

definition nan_absorbed :: "database \<Rightarrow> bool" where
  "nan_absorbed db \<longleftrightarrow>
     list_all
       (\<lambda>t. amount t = NaN \<longrightarrow>
            list_all (\<lambda>a. acc_id a = account_id t \<longrightarrow> current_balance a = NaN) (accounts db))
       (transactions db)"

text \<open>
  An insert into \<^verbatim>\<open>accounts\<close> as the account form issues it: the two balances are equal.
  The table itself would take any two values.
\<close>

fun opens_balanced :: "statement \<Rightarrow> bool" where
  "opens_balanced (INSERT_INTO_accounts v) \<longleftrightarrow> av_current_balance v = av_initial_balance v"
| "opens_balanced q \<longleftrightarrow> True"

section \<open>The sums of the dashboard\<close>

text \<open>
  The sum of a list of column values as the browser computes it, from the left, and the
  transactions of one type within the dashboard's account filter.
\<close>

definition js_sum :: "'n javascript \<Rightarrow> decimal list \<Rightarrow> 'n" where
  "js_sum js xs = foldl (\<lambda>sum x. js_plus js sum (js_Number js (js_numeric js x))) (js_zero js) xs"

definition of_type :: "transaction_type \<Rightarrow> uuid option \<Rightarrow> transaction list \<Rightarrow> transaction list" where
  "of_type ty sel txs =
     filter (\<lambda>t. tx_type t = ty \<and> (case sel of None \<Rightarrow> True | Some s \<Rightarrow> account_id t = s)) txs"

section \<open>Decimal arithmetic\<close>

lemma Num_plus [simp]: "Num a + Num b = Num (a + b)"
  and NaN_plus [simp]: "NaN + x = NaN"
  and plus_NaN [simp]: "x + NaN = NaN"
  by (simp_all add: plus_decimal_def split: decimal.splits)

lemma uminus_Num [simp]: "- Num a = Num (- a)"
  and uminus_NaN [simp]: "- NaN = NaN"
  by (simp_all add: uminus_decimal_def)

lemma Num_minus [simp]: "Num a - Num b = Num (a - b)"
  and NaN_minus [simp]: "NaN - x = NaN"
  and minus_NaN [simp]: "x - NaN = NaN"
  by (simp_all add: minus_decimal_def split: decimal.splits)

lemma zero_Num [simp]: "(0::decimal) = Num 0"
  by (simp add: zero_decimal_def)

lemma decimal_diff_conv: "x - y = x + - (y::decimal)"
  by (cases x; cases y) simp_all

lemma plus_Num_zero [simp]: "x + Num 0 = x"
  and Num_zero_plus [simp]: "Num 0 + x = x"
  by (cases x; simp)+

lemma plus_Num_Num: "x + Num a + Num b = x + Num (a + b)"
  by (cases x) simp_all

lemma Num_number_of: "x \<noteq> NaN \<Longrightarrow> Num (number_of x) = x"
  by (cases x) simp_all

lemma decimal_15_2_NaN [simp]: "decimal_15_2 NaN"
  and decimal_15_2_Num [simp]: "decimal_15_2 (Num i) \<longleftrightarrow> \<bar>i\<bar> < 10 ^ 15"
  by (simp_all add: decimal_15_2_def)

lemma sum_list_NaN: "NaN \<in> set xs \<Longrightarrow> sum_list xs = NaN"
  by (induction xs) auto

lemma signed_case_signed: "signed_case ty m = signed_contribution ty m"
  by (cases ty) (simp_all add: signed_case_def signed_contribution_def)

lemma contribution_NaN: "contribution t = NaN \<longleftrightarrow> amount t = NaN"
  by (cases "amount t") (simp_all add: contribution_def signed_contribution_def)

lemma contribution_number: "amount t \<noteq> NaN \<Longrightarrow> Num (number_of (contribution t)) = contribution t"
  by (simp add: Num_number_of contribution_NaN)

section \<open>The trigger, row by row\<close>

lemma set_current_balance_Inr:
  assumes "set_current_balance f aid accs = Inr accs'"
  shows "accs' = map (\<lambda>a. if acc_id a = aid then a\<lparr>current_balance := f (current_balance a)\<rparr> else a) accs"
  using assms by (simp add: set_current_balance_def split: if_splits)

lemma set_current_balance_plus:
  assumes "set_current_balance (\<lambda>b. b + c) aid accs = Inr accs'"
  shows "accs' = map (bump aid c) accs"
  using set_current_balance_Inr [OF assms] by (simp add: bump_def [abs_def])

lemma set_current_balance_minus:
  assumes "set_current_balance (\<lambda>b. b - c) aid accs = Inr accs'"
  shows "accs' = map (bump aid (- c)) accs"
  using set_current_balance_Inr [OF assms] by (simp add: bump_def [abs_def] decimal_diff_conv)

lemma trigger_result:
  assumes "update_account_balance ev accs = Inr accs'"
  shows "accs' = map (apply_event ev) accs"
proof (cases ev)
  case (INSERT NEW)
  with assms have "set_current_balance (\<lambda>b. b + contribution NEW) (account_id NEW) accs = Inr accs'"
    by (simp add: signed_case_signed contribution_def)
  from set_current_balance_plus [OF this] INSERT show ?thesis
    by (simp add: apply_event.simps(1) [abs_def])
next
  case (UPDATE OLD NEW)
  with assms obtain mid where
    r: "set_current_balance (\<lambda>b. b - contribution OLD) (account_id OLD) accs = Inr mid" and
    a: "set_current_balance (\<lambda>b. b + contribution NEW) (account_id NEW) mid = Inr accs'"
    by (auto simp: signed_case_signed contribution_def split: sum.splits)
  show ?thesis
    unfolding set_current_balance_plus [OF a] set_current_balance_minus [OF r] UPDATE
    by simp
next
  case (DELETE OLD)
  with assms have "set_current_balance (\<lambda>b. b - contribution OLD) (account_id OLD) accs = Inr accs'"
    by (simp add: signed_case_signed contribution_def)
  from set_current_balance_minus [OF this] DELETE show ?thesis
    by (simp add: apply_event.simps(3) [abs_def])
qed

lemma fire_triggers_result:
  "fire_triggers evs accs = Inr accs' \<Longrightarrow> accs' = map (apply_events evs) accs"
proof (induction evs arbitrary: accs)
  case Nil
  then show ?case by simp
next
  case (Cons ev evs)
  then obtain mid where m: "update_account_balance ev accs = Inr mid"
    and r: "fire_triggers evs mid = Inr accs'"
    by (auto split: sum.splits)
  from Cons.IH [OF r] trigger_result [OF m] show ?case by simp
qed

lemma bump_fields [simp]:
  "acc_id (bump aid c a) = acc_id a"
  "acc_user_id (bump aid c a) = acc_user_id a"
  "initial_balance (bump aid c a) = initial_balance a"
  by (simp_all add: bump_def)

lemma bump_NaN [simp]: "current_balance a = NaN \<Longrightarrow> current_balance (bump aid c a) = NaN"
  by (simp add: bump_def)

lemma apply_event_fields [simp]:
  "acc_id (apply_event ev a) = acc_id a"
  "acc_user_id (apply_event ev a) = acc_user_id a"
  "initial_balance (apply_event ev a) = initial_balance a"
  by (cases ev; simp)+

lemma apply_event_NaN [simp]: "current_balance a = NaN \<Longrightarrow> current_balance (apply_event ev a) = NaN"
  by (cases ev) simp_all

lemma apply_events_fields [simp]:
  "acc_id (apply_events evs a) = acc_id a"
  "acc_user_id (apply_events evs a) = acc_user_id a"
  "initial_balance (apply_events evs a) = initial_balance a"
  by (induction evs arbitrary: a; simp)+

lemma apply_events_NaN [simp]: "current_balance a = NaN \<Longrightarrow> current_balance (apply_events evs a) = NaN"
  by (induction evs arbitrary: a) simp_all

lemma fire_triggers_ids:
  "fire_triggers evs accs = Inr accs' \<Longrightarrow> map acc_id accs' = map acc_id accs"
  by (drule fire_triggers_result) simp

lemma fire_triggers_initial:
  "fire_triggers evs accs = Inr accs' \<Longrightarrow> map initial_balance accs' = map initial_balance accs"
  by (drule fire_triggers_result) simp

section \<open>The trigger on amounts that are numbers\<close>

lemma credit_fields [simp]:
  "acc_id (credit d a) = acc_id a"
  "acc_user_id (credit d a) = acc_user_id a"
  "initial_balance (credit d a) = initial_balance a"
  "current_balance (credit d a) = current_balance a + Num (d (acc_id a))"
  by (simp_all add: credit_def)

lemma credit_credit: "credit d2 (credit d1 a) = credit (\<lambda>x. d1 x + d2 x) a"
  by (simp add: credit_def plus_Num_Num)

lemma credit_zero [simp]: "credit (\<lambda>x. 0) a = a"
  by (simp add: credit_def)

lemma map_credit_zero: "map (credit (\<lambda>x. 0)) accs = accs"
  by (rule map_idI) simp

lemma bump_credit: "bump aid (Num k) a = credit (\<lambda>x. if aid = x then k else 0) a"
  by (simp add: bump_def credit_def)

lemma apply_event_credit:
  assumes "number_event ev"
  shows "apply_event ev a = credit (effect ev) a"
proof (cases ev)
  case (INSERT NEW)
  with assms have "contribution NEW = Num (number_of (contribution NEW))"
    by (simp add: contribution_number)
  then have "apply_event ev a =
      credit (\<lambda>x. if account_id NEW = x then number_of (contribution NEW) else 0) a"
    using INSERT by (simp add: bump_credit [symmetric])
  also have "(\<lambda>x. if account_id NEW = x then number_of (contribution NEW) else 0) = effect ev"
    using INSERT by (intro ext) simp
  finally show ?thesis .
next
  case (UPDATE OLD NEW)
  with assms have n: "contribution NEW = Num (number_of (contribution NEW))"
    and "contribution OLD = Num (number_of (contribution OLD))"
    by (simp_all add: contribution_number)
  then have o: "- contribution OLD = Num (- number_of (contribution OLD))"
    by (metis uminus_Num)
  have "apply_event ev a =
      credit (\<lambda>x. if account_id NEW = x then number_of (contribution NEW) else 0)
        (credit (\<lambda>x. if account_id OLD = x then - number_of (contribution OLD) else 0) a)"
    unfolding UPDATE apply_event.simps by (subst n, subst o) (simp only: bump_credit)
  also have "\<dots> = credit (\<lambda>x. (if account_id OLD = x then - number_of (contribution OLD) else 0) +
                           (if account_id NEW = x then number_of (contribution NEW) else 0)) a"
    by (rule credit_credit)
  also have "(\<lambda>x. (if account_id OLD = x then - number_of (contribution OLD) else 0) +
                  (if account_id NEW = x then number_of (contribution NEW) else 0)) = effect ev"
    using UPDATE by (intro ext) simp
  finally show ?thesis .
next
  case (DELETE OLD)
  with assms have "contribution OLD = Num (number_of (contribution OLD))"
    by (simp add: contribution_number)
  then have "- contribution OLD = Num (- number_of (contribution OLD))"
    by (metis uminus_Num)
  then have "apply_event ev a =
      credit (\<lambda>x. if account_id OLD = x then - number_of (contribution OLD) else 0) a"
    using DELETE by (simp add: bump_credit [symmetric])
  also have "(\<lambda>x. if account_id OLD = x then - number_of (contribution OLD) else 0) = effect ev"
    using DELETE by (intro ext) simp
  finally show ?thesis .
qed

lemma effects_Nil [simp]: "effects [] aid = 0"
  and effects_Cons [simp]: "effects (ev # evs) aid = effect ev aid + effects evs aid"
  by (simp_all add: effects_def)

lemma apply_events_credit:
  "list_all number_event evs \<Longrightarrow> apply_events evs a = credit (effects evs) a"
proof (induction evs arbitrary: a)
  case Nil
  have "effects [] = (\<lambda>x. 0)" by (rule ext) simp
  then show ?case by simp
next
  case (Cons ev evs)
  have "effects (ev # evs) = (\<lambda>x. effect ev x + effects evs x)" by (rule ext) simp
  with Cons show ?case
    by (simp add: apply_event_credit credit_credit)
qed

lemma fire_triggers_effects:
  assumes "list_all number_event evs" and "fire_triggers evs accs = Inr accs'"
  shows "accs' = map (credit (effects evs)) accs"
  using fire_triggers_result [OF assms(2)] assms(1)
  by (simp add: apply_events_credit)

section \<open>What a completed statement on transactions has done\<close>

lemma insert_transaction_Inr:
  assumes "insert_transaction uid v db = Inr db'"
  obtains NEW where "new_transaction v = Inr NEW" and "row_accepted uid db NEW = None"
    and "tx_id NEW \<notin> tx_id ` set (transactions db)"
    and "fire_triggers [INSERT NEW] (accounts db) = Inr (accounts db')"
    and "transactions db' = transactions db @ [NEW]"
    and "categories db' = categories db"
  using assms unfolding insert_transaction_def
  by (auto split: sum.splits option.splits if_splits)

lemma update_transaction_Inr:
  assumes "update_transaction uid tid p db = Inr db'"
  obtains ty amt evs where "coerce_type (set_type p) = Inr ty" and "coerce_amount (set_amount p) = Inr amt"
    and "update_rows (\<lambda>r. tx_id r = tid \<and> tx_user_id r = uid)
           (\<lambda>OLD. case assign_row p ty amt OLD of
                     Inl e \<Rightarrow> Inl e
                   | Inr NEW \<Rightarrow> (case row_accepted uid db NEW of Some e \<Rightarrow> Inl e | None \<Rightarrow> Inr NEW))
           (transactions db) = Inr (transactions db', evs)"
    and "fire_triggers evs (accounts db) = Inr (accounts db')"
    and "categories db' = categories db"
  using assms unfolding update_transaction_def
  by (auto split: sum.splits prod.splits)

lemma delete_transaction_Inr:
  assumes "delete_transaction uid tid db = Inr db'"
  obtains evs where
    "delete_rows (\<lambda>r. tx_id r = tid \<and> tx_user_id r = uid) (transactions db) = (transactions db', evs)"
    and "fire_triggers evs (accounts db) = Inr (accounts db')"
    and "categories db' = categories db"
  using assms unfolding delete_transaction_def
  by (auto split: sum.splits prod.splits)

lemma new_transaction_Inr:
  assumes "new_transaction v = Inr NEW"
  shows "tx_id NEW = v_id v" and "decimal_15_2 (amount NEW)"
    and "v_amount v = Some (amount NEW)" and "v_account_id v = Some (account_id NEW)"
    and "v_user_id v = Some (tx_user_id NEW)" and "category_id NEW = v_category_id v"
    and "date NEW = v_date v"
    and "\<exists>txt. v_type v = Some txt \<and> transaction_type_in txt = Inr (tx_type NEW)"
  using assms
  by (auto simp: new_transaction_def split: option.splits sum.splits if_splits)

lemma row_accepted_None:
  assumes "row_accepted uid db r = None"
  shows "tx_user_id r = uid" and "account_id r \<in> acc_id ` set (accounts db)"
    and "case category_id r of None \<Rightarrow> True | Some c \<Rightarrow> c \<in> cat_id ` set (categories db)"
  using assms by (auto simp: row_accepted_def split: if_splits option.splits)

lemma assign_row_Inr:
  assumes "assign_row p ty amt OLD = Inr NEW"
  shows "tx_id NEW = tx_id OLD"
    and "assign_not_null (set_user_id p) (tx_user_id OLD) = Inr (tx_user_id NEW)"
    and "assign_not_null (set_account_id p) (account_id OLD) = Inr (account_id NEW)"
    and "assign_not_null ty (tx_type OLD) = Inr (tx_type NEW)"
    and "assign_not_null amt (amount OLD) = Inr (amount NEW)"
    and "assign_not_null (set_date p) (date OLD) = Inr (date NEW)"
    and "category_id NEW = assign_nullable (set_category_id p) (category_id OLD)"
  using assms by (auto simp: assign_row_def split: sum.splits)

lemma coerce_amount_Inr:
  assumes "coerce_amount a = Inr amt" and "assign_not_null amt old = Inr m"
  shows "decimal_15_2 old \<Longrightarrow> decimal_15_2 m" and "a \<noteq> SetTo NaN \<Longrightarrow> old \<noteq> NaN \<Longrightarrow> m \<noteq> NaN"
  using assms by (cases a; auto split: if_splits)+

lemma update_rows_pointwise:
  "update_rows affected new txs = Inr (rows, evs) \<Longrightarrow>
     list_all2 (\<lambda>OLD r. r = OLD \<or> (affected OLD \<and> new OLD = Inr r)) txs rows"
proof (induction txs arbitrary: rows evs)
  case Nil
  then show ?case by simp
next
  case (Cons OLD txs)
  then show ?case
    by (cases "affected OLD") (auto split: sum.splits)
qed

lemma update_rows_events:
  "update_rows affected new txs = Inr (rows, evs) \<Longrightarrow> ev \<in> set evs \<Longrightarrow>
     \<exists>OLD NEW. ev = UPDATE OLD NEW \<and> OLD \<in> set txs \<and> affected OLD \<and> new OLD = Inr NEW"
proof (induction txs arbitrary: rows evs)
  case Nil
  then show ?case by simp
next
  case (Cons OLD txs)
  then show ?case
    by (cases "affected OLD") (auto split: sum.splits)
qed

lemma update_rows_ids:
  assumes "update_rows affected new txs = Inr (rows, evs)"
    and "\<And>OLD NEW. new OLD = Inr NEW \<Longrightarrow> tx_id NEW = tx_id OLD"
  shows "map tx_id rows = map tx_id txs"
proof -
  have "list_all2 (\<lambda>OLD r. tx_id r = tx_id OLD) txs rows"
    by (rule list_all2_mono [OF update_rows_pointwise [OF assms(1)]]) (auto dest: assms(2))
  then show ?thesis
    by (induction rule: list_all2_induct) simp_all
qed

lemma update_rows_all:
  assumes "update_rows affected new txs = Inr (rows, evs)" and "list_all P txs"
    and "\<And>OLD NEW. P OLD \<Longrightarrow> new OLD = Inr NEW \<Longrightarrow> P NEW"
  shows "list_all P rows"
proof -
  from update_rows_pointwise [OF assms(1)] assms(2) show ?thesis
    by (induction rule: list_all2_induct) (auto dest: assms(3))
qed

section \<open>The trigger keeps the balances in step with the transactions\<close>

lemma tally_Nil [simp]: "tally [] aid = Num 0"
  by (simp add: tally_def)

lemma tally_Cons:
  "tally (t # txs) aid = (if account_id t = aid then contribution t else Num 0) + tally txs aid"
  by (simp add: tally_def)

lemma tally_append:
  "tally (txs @ [t]) aid = tally txs aid + (if account_id t = aid then contribution t else Num 0)"
  by (simp add: tally_def)

lemma Num_if: "Num (if c then a else 0) = (if c then Num a else Num 0)"
  by simp

lemma tally_update_rows:
  "update_rows affected new txs = Inr (rows, evs) \<Longrightarrow> list_all number_event evs \<Longrightarrow>
     tally rows aid = tally txs aid + Num (effects evs aid)"
proof (induction txs arbitrary: rows evs)
  case Nil
  then show ?case by simp
next
  case (Cons OLD txs)
  show ?case
  proof (cases "affected OLD")
    case True
    with Cons.prems obtain NEW rows' evs' where
      rec: "update_rows affected new txs = Inr (rows', evs')"
      and rows: "rows = NEW # rows'" and evs: "evs = UPDATE OLD NEW # evs'"
      by (auto split: sum.splits)
    from Cons.prems(2) evs have num: "amount OLD \<noteq> NaN" "amount NEW \<noteq> NaN" "list_all number_event evs'"
      by simp_all
    obtain co cn where co: "contribution OLD = Num co" and cn: "contribution NEW = Num cn"
      using num(1,2) by (metis contribution_number)
    obtain T where T: "tally txs aid = T" by simp
    from Cons.IH [OF rec num(3)] have "tally rows' aid = T + Num (effects evs' aid)"
      by (simp add: T)
    then show ?thesis
      by (cases T) (simp_all add: rows evs tally_Cons T co cn)
  next
    case False
    with Cons.prems obtain rows' where
      rec: "update_rows affected new txs = Inr (rows', evs)" and "rows = OLD # rows'"
      by (auto split: sum.splits)
    with Cons.IH [OF rec Cons.prems(2)] show ?thesis
      by (simp add: tally_Cons add.assoc)
  qed
qed

lemma tally_filter_out:
  assumes "list_all (\<lambda>t. amount t \<noteq> NaN) (filter affected txs)"
  shows "tally (filter (\<lambda>r. \<not> affected r) txs) aid =
           tally txs aid + Num (effects (map DELETE (filter affected txs)) aid)"
  using assms
proof (induction txs)
  case Nil
  then show ?case by simp
next
  case (Cons OLD txs)
  show ?case
  proof (cases "affected OLD")
    case True
    with Cons.prems have num: "amount OLD \<noteq> NaN" "list_all (\<lambda>t. amount t \<noteq> NaN) (filter affected txs)"
      by simp_all
    obtain co where co: "contribution OLD = Num co"
      using num(1) by (metis contribution_number)
    obtain T where T: "tally txs aid = T" by simp
    from Cons.IH [OF num(2)] have "tally (filter (\<lambda>r. \<not> affected r) txs) aid =
        T + Num (effects (map DELETE (filter affected txs)) aid)"
      by (simp add: T)
    with True show ?thesis
      by (cases T) (simp_all add: tally_Cons T co)
  next
    case False
    with Cons show ?thesis
      by (simp add: tally_Cons add.assoc)
  qed
qed

lemma consistent_step:
  assumes "balances_consistent db"
    and "accounts db' = map (credit d) (accounts db)"
    and "\<And>aid. tally (transactions db') aid = tally (transactions db) aid + Num (d aid)"
  shows "balances_consistent db'"
  using assms by (simp add: balances_consistent_def list_all_iff add.assoc)

lemma insert_transaction_consistent:
  assumes "balances_consistent db" and "number_amounts db" and "v_amount v \<noteq> Some NaN"
    and "insert_transaction uid v db = Inr db'"
  shows "balances_consistent db' \<and> number_amounts db'"
proof -
  from assms(4) obtain NEW where n: "new_transaction v = Inr NEW"
    and f: "fire_triggers [INSERT NEW] (accounts db) = Inr (accounts db')"
    and t: "transactions db' = transactions db @ [NEW]"
    by (rule insert_transaction_Inr)
  from new_transaction_Inr(3) [OF n] assms(3) have num: "amount NEW \<noteq> NaN" by auto
  then obtain k where c: "contribution NEW = Num k"
    by (metis contribution_number)
  have "balances_consistent db'"
  proof (rule consistent_step [OF assms(1) fire_triggers_effects [OF _ f]])
    show "list_all number_event [INSERT NEW]" using num by simp
    show "tally (transactions db') aid = tally (transactions db) aid + Num (effects [INSERT NEW] aid)" for aid
      by (simp add: t tally_append c)
  qed
  with assms(2) num show ?thesis by (simp add: number_amounts_def t)
qed

lemma update_transaction_consistent:
  assumes "balances_consistent db" and "number_amounts db" and "set_amount p \<noteq> SetTo NaN"
    and "update_transaction uid tid p db = Inr db'"
  shows "balances_consistent db' \<and> number_amounts db'"
proof -
  let ?new = "\<lambda>ty amt OLD. case assign_row p ty amt OLD of
                     Inl e \<Rightarrow> Inl e
                   | Inr NEW \<Rightarrow> (case row_accepted uid db NEW of Some e \<Rightarrow> Inl e | None \<Rightarrow> Inr NEW)"
  from assms(4) obtain ty amt evs where amt: "coerce_amount (set_amount p) = Inr amt"
    and u: "update_rows (\<lambda>r. tx_id r = tid \<and> tx_user_id r = uid) (?new ty amt)
              (transactions db) = Inr (transactions db', evs)"
    and f: "fire_triggers evs (accounts db) = Inr (accounts db')"
    by (rule update_transaction_Inr)
  have new: "amount NEW \<noteq> NaN" if "amount OLD \<noteq> NaN" and "?new ty amt OLD = Inr NEW" for OLD NEW
  proof -
    from that(2) have "assign_row p ty amt OLD = Inr NEW"
      by (auto split: sum.splits option.splits)
    from coerce_amount_Inr(2) [OF amt assign_row_Inr(5) [OF this] assms(3) that(1)]
    show ?thesis .
  qed
  from assms(2) have old: "list_all (\<lambda>t. amount t \<noteq> NaN) (transactions db)"
    by (simp add: number_amounts_def)
  have evs: "list_all number_event evs"
    unfolding list_all_iff
  proof
    fix ev assume "ev \<in> set evs"
    from update_rows_events [OF u this] obtain OLD NEW where
      "ev = UPDATE OLD NEW" "OLD \<in> set (transactions db)" "?new ty amt OLD = Inr NEW"
      by blast
    with old new show "number_event ev"
      by (auto simp: list_all_iff)
  qed
  have "balances_consistent db'"
    by (rule consistent_step [OF assms(1) fire_triggers_effects [OF evs f]])
      (rule tally_update_rows [OF u evs])
  moreover have "list_all (\<lambda>t. amount t \<noteq> NaN) (transactions db')"
    by (rule update_rows_all [OF u old]) (rule new)
  ultimately show ?thesis by (simp add: number_amounts_def)
qed

lemma delete_transaction_consistent:
  assumes "balances_consistent db" and "number_amounts db"
    and "delete_transaction uid tid db = Inr db'"
  shows "balances_consistent db' \<and> number_amounts db'"
proof -
  let ?affected = "\<lambda>r. tx_id r = tid \<and> tx_user_id r = uid"
  from assms(3) obtain evs where
    d: "delete_rows ?affected (transactions db) = (transactions db', evs)"
    and f: "fire_triggers evs (accounts db) = Inr (accounts db')"
    by (rule delete_transaction_Inr)
  from d have rows: "transactions db' = filter (\<lambda>r. \<not> ?affected r) (transactions db)"
    and evs: "evs = map DELETE (filter ?affected (transactions db))"
    by (simp_all add: delete_rows_def)
  from assms(2) have old: "list_all (\<lambda>t. amount t \<noteq> NaN) (transactions db)"
    by (simp add: number_amounts_def)
  then have gone: "list_all (\<lambda>t. amount t \<noteq> NaN) (filter ?affected (transactions db))"
    by (simp add: list_all_iff)
  then have num: "list_all number_event evs"
    by (simp add: evs list_all_iff)
  have "balances_consistent db'"
    by (rule consistent_step [OF assms(1) fire_triggers_effects [OF num f]])
      (simp only: rows evs tally_filter_out [OF gone])
  moreover from old have "list_all (\<lambda>t. amount t \<noteq> NaN) (transactions db')"
    by (simp add: rows list_all_iff)
  ultimately show ?thesis by (simp add: number_amounts_def)
qed

lemma execute_accounts_kept:
  assumes "transaction_mutation q" and "execute uid q db = Inr db'"
  shows "map acc_id (accounts db') = map acc_id (accounts db) \<and>
         map initial_balance (accounts db') = map initial_balance (accounts db)"
proof -
  from assms obtain evs where "fire_triggers evs (accounts db) = Inr (accounts db')"
    by (cases q)
      (auto elim: insert_transaction_Inr update_transaction_Inr delete_transaction_Inr)
  then show ?thesis
    by (simp add: fire_triggers_ids fire_triggers_initial)
qed

lemma after_mutation:
  assumes "transaction_mutation q" and "supplies_number q"
    and "balances_consistent db" and "number_amounts db"
  shows "balances_consistent (after_statement uid q db) \<and> number_amounts (after_statement uid q db) \<and>
         map acc_id (accounts (after_statement uid q db)) = map acc_id (accounts db) \<and>
         map initial_balance (accounts (after_statement uid q db)) = map initial_balance (accounts db)"
proof (cases "execute uid q db")
  case (Inl e)
  with assms(3,4) show ?thesis by (simp add: after_statement_def)
next
  case (Inr db')
  with assms have "balances_consistent db' \<and> number_amounts db'"
    by (cases q)
      (auto dest: insert_transaction_consistent update_transaction_consistent
        delete_transaction_consistent)
  with Inr execute_accounts_kept [OF assms(1) Inr] show ?thesis
    by (simp add: after_statement_def)
qed

lemmas evaluate_statement =
  after_statement_def insert_transaction_def new_transaction_def transaction_type_in_def
  row_accepted_def set_current_balance_def signed_case_def
  update_transaction_def assign_row_def delete_transaction_def delete_rows_def
  insert_account_def delete_account_def insert_category_def delete_category_def

lemma example_consistent: "balances_consistent example_db"
  by (simp add: balances_consistent_def example_db_def tally_def contribution_def
      signed_contribution_def)

text \<open>
  Claim C1 fails on an amount that is not a number. In the example database, where every
  balance agrees with its transactions, user 7 inserts an income with the amount \<^verbatim>\<open>NaN\<close>
  on account 1 and deletes it again. Both statements complete. The transactions are
  those of before, whose contributions to account 1 sum to 20.00 on an initial balance
  of 100.00, but the balance of account 1 is \<^verbatim>\<open>NaN\<close> and stays so.
\<close>

theorem nan_breaks_invariant:
  "balances_consistent example_db \<and>
   execute 7 (INSERT_INTO_transactions
       \<lparr>v_id = 13, v_user_id = Some 7, v_account_id = Some 1, v_category_id = None,
        v_type = Some ''income'', v_amount = Some NaN, v_date = 3\<rparr>) example_db =
     Inr (example_db
       \<lparr>accounts :=
          [\<lparr>acc_id = 1, acc_user_id = 7, initial_balance = Num 10000, current_balance = NaN\<rparr>,
           \<lparr>acc_id = 2, acc_user_id = 7, initial_balance = Num 0, current_balance = Num 0\<rparr>],
        transactions := transactions example_db @
          [\<lparr>tx_id = 13, tx_user_id = 7, account_id = 1, category_id = None,
            tx_type = income, amount = NaN, date = 3\<rparr>]\<rparr>) \<and>
   execute 7 (DELETE_FROM_transactions 13)
     (example_db
       \<lparr>accounts :=
          [\<lparr>acc_id = 1, acc_user_id = 7, initial_balance = Num 10000, current_balance = NaN\<rparr>,
           \<lparr>acc_id = 2, acc_user_id = 7, initial_balance = Num 0, current_balance = Num 0\<rparr>],
        transactions := transactions example_db @
          [\<lparr>tx_id = 13, tx_user_id = 7, account_id = 1, category_id = None,
            tx_type = income, amount = NaN, date = 3\<rparr>]\<rparr>) =
     Inr (example_db
       \<lparr>accounts :=
          [\<lparr>acc_id = 1, acc_user_id = 7, initial_balance = Num 10000, current_balance = NaN\<rparr>,
           \<lparr>acc_id = 2, acc_user_id = 7, initial_balance = Num 0, current_balance = Num 0\<rparr>]\<rparr>) \<and>
   tally (transactions example_db) 1 = Num 2000 \<and>
   \<not> balances_consistent
     (example_db
       \<lparr>accounts :=
          [\<lparr>acc_id = 1, acc_user_id = 7, initial_balance = Num 10000, current_balance = NaN\<rparr>,
           \<lparr>acc_id = 2, acc_user_id = 7, initial_balance = Num 0, current_balance = Num 0\<rparr>]\<rparr>)"
  by (simp add: evaluate_statement example_db_def balances_consistent_def tally_def
      contribution_def signed_contribution_def)

text \<open>
  Claim C1, for amounts that are numbers. Start from a database in which every account's
  balance agrees with its transactions (as it does for an account just created with
  \<open>current_balance = initial_balance\<close> and no transactions) and no transaction has the
  amount \<^verbatim>\<open>NaN\<close>. Let any users issue any finite sequence of inserts, updates and deletes
  of transactions that supply no \<^verbatim>\<open>NaN\<close> amount. Then in the database after each
  statement of the sequence, whether it completed or was aborted, the accounts are
  those of the start, each with the initial balance it had, and the \<^verbatim>\<open>current_balance\<close> of
  every account equals its \<^verbatim>\<open>initial_balance\<close> plus the sum of the signed contributions of
  exactly the transactions that reference the account then.
\<close>

theorem balance_invariant:
  assumes "balances_consistent db" and "number_amounts db"
    and "\<forall>(uid, q) \<in> set qs. transaction_mutation q \<and> supplies_number q"
    and "db' \<in> set (history db qs)"
  shows "map acc_id (accounts db') = map acc_id (accounts db) \<and>
         map initial_balance (accounts db') = map initial_balance (accounts db) \<and>
         (\<forall>a \<in> set (accounts db').
            current_balance a =
              initial_balance a +
              (\<Sum>t \<leftarrow> filter (\<lambda>t. account_id t = acc_id a) (transactions db').
                 signed_contribution (tx_type t) (amount t)))"
proof -
  have "balances_consistent db' \<and>
        map acc_id (accounts db') = map acc_id (accounts db) \<and>
        map initial_balance (accounts db') = map initial_balance (accounts db)"
    using assms
  proof (induction qs arbitrary: db)
    case Nil
    then show ?case by simp
  next
    case (Cons uq qs)
    obtain uid q where uq: "uq = (uid, q)" by (cases uq)
    with Cons.prems have q: "transaction_mutation q" "supplies_number q" by simp_all
    note step = after_mutation [OF q Cons.prems(1,2), of uid]
    from Cons.prems(4) uq consider "db' = after_statement uid q db"
      | "db' \<in> set (history (after_statement uid q db) qs)" by auto
    then show ?case
    proof cases
      case 1
      with step show ?thesis by simp
    next
      case 2
      from step have "balances_consistent (after_statement uid q db)"
        and "number_amounts (after_statement uid q db)" by simp_all
      from Cons.IH [OF this _ 2] Cons.prems(3) step show ?thesis by simp
    qed
  qed
  then show ?thesis
    by (simp add: balances_consistent_def list_all_iff tally_def contribution_def [abs_def])
qed

theorem balance_invariant_witness:
  "balances_consistent example_db \<and> number_amounts example_db \<and>
   map acc_id
     (accounts (after_statement 7 (DELETE_FROM_transactions 12)
        (after_statement 7 (UPDATE_transactions 11 (set_nothing\<lparr>set_amount := SetTo (Num 8000)\<rparr>))
           example_db))) = [1, 2] \<and>
   map initial_balance
     (accounts (after_statement 7 (DELETE_FROM_transactions 12)
        (after_statement 7 (UPDATE_transactions 11 (set_nothing\<lparr>set_amount := SetTo (Num 8000)\<rparr>))
           example_db))) = [Num 10000, Num 0] \<and>
   list_all
     (\<lambda>a. current_balance a =
            initial_balance a +
            (\<Sum>t \<leftarrow> filter (\<lambda>t. account_id t = acc_id a)
               (transactions (after_statement 7 (DELETE_FROM_transactions 12)
                 (after_statement 7 (UPDATE_transactions 11 (set_nothing\<lparr>set_amount := SetTo (Num 8000)\<rparr>))
                    example_db))).
               signed_contribution (tx_type t) (amount t)))
     (accounts (after_statement 7 (DELETE_FROM_transactions 12)
        (after_statement 7 (UPDATE_transactions 11 (set_nothing\<lparr>set_amount := SetTo (Num 8000)\<rparr>))
           example_db)))"
proof -
  have numbers: "number_amounts example_db"
    by (simp add: number_amounts_def example_db_def)
  have ids: "map acc_id (accounts example_db) = [1, 2]"
    and initial: "map initial_balance (accounts example_db) = [Num 10000, Num 0]"
    by (simp_all add: example_db_def)
  from balance_invariant
    [where qs = "[(7, UPDATE_transactions 11 (set_nothing\<lparr>set_amount := SetTo (Num 8000)\<rparr>)),
                  (7, DELETE_FROM_transactions 12)]", OF example_consistent numbers]
  show ?thesis
    using example_consistent numbers by (simp add: list_all_iff ids initial set_nothing_def)
qed

text \<open>
  Claim C9. An account is opened with an initial balance of 100.00 (the insert the account
  form issues, with \<open>current_balance = initial_balance\<close>). Creating the income
  \<open>t1\<close> of 50.00 brings its balance to 150.00, creating the expense \<open>t2\<close> of 30.00 to
  120.00, updating the amount of \<open>t1\<close> to 80.00 to 150.00, and deleting \<open>t2\<close> to 180.00.
\<close>

theorem concrete_scenario:
  "map (\<lambda>db. map current_balance (accounts db))
     (history empty_database
        [(7, INSERT_INTO_accounts
               \<lparr>av_id = 1, av_user_id = 7, av_initial_balance = Num 10000,
                av_current_balance = Num 10000\<rparr>),
         (7, INSERT_INTO_transactions
               \<lparr>v_id = 11, v_user_id = Some 7, v_account_id = Some 1, v_category_id = None,
                v_type = Some ''income'', v_amount = Some (Num 5000), v_date = 1\<rparr>),
         (7, INSERT_INTO_transactions
               \<lparr>v_id = 12, v_user_id = Some 7, v_account_id = Some 1, v_category_id = None,
                v_type = Some ''expense'', v_amount = Some (Num 3000), v_date = 2\<rparr>),
         (7, UPDATE_transactions 11 (set_nothing\<lparr>set_amount := SetTo (Num 8000)\<rparr>)),
         (7, DELETE_FROM_transactions 12)])
   = [[Num 10000], [Num 15000], [Num 12000], [Num 15000], [Num 18000]]"
  by (simp add: evaluate_statement empty_database_def set_nothing_def)

section \<open>Statements that touch one row\<close>

lemma update_rows_unaffected:
  "\<forall>r \<in> set txs. \<not> affected r \<Longrightarrow> update_rows affected new txs = Inr (txs, [])"
  by (induction txs) simp_all

lemma update_rows_single:
  assumes "distinct (map tx_id txs)" and "t \<in> set txs"
    and "\<And>r. affected r \<Longrightarrow> tx_id r = tx_id t" and "affected t"
    and "update_rows affected new txs = Inr (rows, evs)"
  shows "\<exists>NEW. new t = Inr NEW \<and> evs = [UPDATE t NEW] \<and>
           rows = map (\<lambda>r. if tx_id r = tx_id t then NEW else r) txs"
  using assms(1,2,5)
proof (induction txs arbitrary: rows evs)
  case Nil
  then show ?case by simp
next
  case (Cons r txs)
  show ?case
  proof (cases "r = t")
    case True
    with Cons.prems(1) have "tx_id t \<notin> tx_id ` set txs" by simp
    then have fresh: "\<forall>r' \<in> set txs. tx_id r' \<noteq> tx_id t" by (metis imageI)
    with assms(3) have "\<forall>r' \<in> set txs. \<not> affected r'" by blast
    then have rest: "update_rows affected new txs = Inr (txs, [])"
      by (rule update_rows_unaffected)
    have same: "map (\<lambda>r. if tx_id r = tx_id t then NEW else r) txs = txs" for NEW
      using fresh by (induction txs) simp_all
    from Cons.prems(3) True assms(4) rest show ?thesis
      by (auto simp: same split: sum.splits)
  next
    case False
    with Cons.prems have t: "t \<in> set txs" and ne: "tx_id r \<noteq> tx_id t" by auto
    from ne assms(3) have "\<not> affected r" by blast
    with Cons.prems(3) obtain rows' where
      rec: "update_rows affected new txs = Inr (rows', evs)" and rows: "rows = r # rows'"
      by (auto split: sum.splits)
    from Cons.prems(1) have "distinct (map tx_id txs)" by simp
    from Cons.IH [OF this t rec] rows ne show ?thesis by auto
  qed
qed

lemma sum_list_indicator:
  "distinct xs \<Longrightarrow> (\<Sum>x \<leftarrow> xs. if k = x then (c::int) else 0) = (if k \<in> set xs then c else 0)"
  by (induction xs) auto

lemma sum_current_credit:
  "sum_list (map current_balance (map (credit d) accs)) =
     sum_list (map current_balance accs) + Num (\<Sum>x \<leftarrow> map acc_id accs. d x)"
proof (induction accs)
  case Nil
  then show ?case by simp
next
  case (Cons a accs)
  obtain S where S: "sum_list (map current_balance accs) = S" by simp
  from Cons show ?case
    by (cases "current_balance a"; cases S) (simp_all add: S)
qed

lemma example_well_formed: "well_formed example_db"
  by (simp add: well_formed_def example_db_def)

lemma example_nan_absorbed: "nan_absorbed example_db"
  by (simp add: nan_absorbed_def example_db_def)

section \<open>Updates of one transaction\<close>

lemma update_one_row:
  assumes wf: "well_formed db" and t: "t \<in> set (transactions db)" and own: "tx_user_id t = uid"
    and ex: "execute uid (UPDATE_transactions (tx_id t) p) db = Inr db'"
  obtains ty amt NEW where "coerce_type (set_type p) = Inr ty" and "coerce_amount (set_amount p) = Inr amt"
    and "assign_row p ty amt t = Inr NEW" and "row_accepted uid db NEW = None"
    and "accounts db' = map (apply_event (UPDATE t NEW)) (accounts db)"
    and "transactions db' = map (\<lambda>r. if tx_id r = tx_id t then NEW else r) (transactions db)"
proof -
  from ex have "update_transaction uid (tx_id t) p db = Inr db'" by simp
  then obtain ty amt evs where ty: "coerce_type (set_type p) = Inr ty"
    and amt: "coerce_amount (set_amount p) = Inr amt"
    and u: "update_rows (\<lambda>r. tx_id r = tx_id t \<and> tx_user_id r = uid)
           (\<lambda>OLD. case assign_row p ty amt OLD of
                     Inl e \<Rightarrow> Inl e
                   | Inr NEW \<Rightarrow> (case row_accepted uid db NEW of Some e \<Rightarrow> Inl e | None \<Rightarrow> Inr NEW))
           (transactions db) = Inr (transactions db', evs)"
    and f: "fire_triggers evs (accounts db) = Inr (accounts db')"
    by (rule update_transaction_Inr)
  from wf have d: "distinct (map tx_id (transactions db))" by (simp add: well_formed_def)
  from update_rows_single [OF d t _ _ u] own obtain NEW where
    new: "(case assign_row p ty amt t of
             Inl e \<Rightarrow> Inl e
           | Inr NEW \<Rightarrow> (case row_accepted uid db NEW of Some e \<Rightarrow> Inl e | None \<Rightarrow> Inr NEW)) = Inr NEW"
    and evs: "evs = [UPDATE t NEW]"
    and rows: "transactions db' = map (\<lambda>r. if tx_id r = tx_id t then NEW else r) (transactions db)"
    by auto
  from new have a: "assign_row p ty amt t = Inr NEW" and r: "row_accepted uid db NEW = None"
    by (auto split: sum.splits option.splits)
  from fire_triggers_result [OF f] evs
  have accs: "accounts db' = map (apply_event (UPDATE t NEW)) (accounts db)" by simp
  show ?thesis by (rule that [OF ty amt a r accs rows])
qed

lemma revert_apply_same_account: "b + - x + y = b + (y - (x::decimal))"
  by (cases b; cases x; cases y) simp_all

text \<open>
  Claim C2. In a stored state, let a user update the amount of one of the user's
  transactions to \<open>m2\<close>, assigning neither its type nor its account (other columns may be
  assigned). When the update completes, the balance of the transaction's account has
  changed by exactly \<open>signed(T, m2) - signed(T, m1)\<close>, where \<open>T\<close> is the type and \<open>m1\<close>
  the old amount, and every other account row is what it was.
\<close>

theorem amount_update:
  assumes "well_formed db" and "t \<in> set (transactions db)" and "tx_user_id t = uid"
    and "set_account_id p = Keep" and "set_type p = Keep" and "set_amount p = SetTo m2"
    and "execute uid (UPDATE_transactions (tx_id t) p) db = Inr db'"
  shows "accounts db' =
           map (\<lambda>a. if acc_id a = account_id t
                    then a\<lparr>current_balance := current_balance a +
                           (signed_contribution (tx_type t) m2 -
                            signed_contribution (tx_type t) (amount t))\<rparr>
                    else a)
             (accounts db)"
proof -
  from assms(1,2,3,7) obtain ty amt NEW where
    ty: "coerce_type (set_type p) = Inr ty" and amt: "coerce_amount (set_amount p) = Inr amt"
    and a: "assign_row p ty amt t = Inr NEW"
    and acc: "accounts db' = map (apply_event (UPDATE t NEW)) (accounts db)"
    by (rule update_one_row)
  from ty amt assms(5,6) have ty': "ty = Keep" and amt': "amt = SetTo m2"
    by (auto split: if_splits)
  from assign_row_Inr(3,4,5) [OF a] assms(4) ty' amt'
  have new: "account_id NEW = account_id t" "tx_type NEW = tx_type t" "amount NEW = m2"
    by simp_all
  show ?thesis
    unfolding acc
    by (rule map_cong) (simp_all add: bump_def contribution_def new revert_apply_same_account)
qed


theorem amount_update_witness:
  "well_formed example_db \<and>
   execute 7 (UPDATE_transactions 11 (set_nothing\<lparr>set_amount := SetTo (Num 8000)\<rparr>)) example_db =
     Inr (after_statement 7 (UPDATE_transactions 11 (set_nothing\<lparr>set_amount := SetTo (Num 8000)\<rparr>)) example_db) \<and>
   map current_balance
     (accounts (after_statement 7 (UPDATE_transactions 11 (set_nothing\<lparr>set_amount := SetTo (Num 8000)\<rparr>)) example_db))
     = [Num 15000, Num 0]"
proof -
  let ?q = "UPDATE_transactions 11 (set_nothing\<lparr>set_amount := SetTo (Num 8000)\<rparr>)"
  let ?t = "\<lparr>tx_id = 11, tx_user_id = 7, account_id = 1, category_id = None,
             tx_type = income, amount = Num 5000, date = 1\<rparr>"
  have ex: "execute 7 (UPDATE_transactions (tx_id ?t) (set_nothing\<lparr>set_amount := SetTo (Num 8000)\<rparr>)) example_db =
              Inr (after_statement 7 ?q example_db)"
    by (simp add: evaluate_statement example_db_def set_nothing_def)
  have "accounts (after_statement 7 ?q example_db) =
          map (\<lambda>a. if acc_id a = account_id ?t
                    then a\<lparr>current_balance := current_balance a +
                           (signed_contribution (tx_type ?t) (Num 8000) -
                            signed_contribution (tx_type ?t) (amount ?t))\<rparr>
                    else a)
             (accounts example_db)"
    by (rule amount_update [OF example_well_formed _ _ _ _ _ ex])
      (simp_all add: example_db_def set_nothing_def)
  then have "map current_balance (accounts (after_statement 7 ?q example_db)) = [Num 15000, Num 0]"
    by (simp add: example_db_def signed_contribution_def)
  with example_well_formed ex show ?thesis by simp
qed


section \<open>Deleting what was created\<close>

lemma insert_transaction_result:
  assumes "insert_transaction uid v db = Inr db'"
  obtains NEW where "new_transaction v = Inr NEW" and "row_accepted uid db NEW = None"
    and "tx_id NEW \<notin> tx_id ` set (transactions db)"
    and "db' = db\<lparr>accounts := map (bump (account_id NEW) (contribution NEW)) (accounts db),
                    transactions := transactions db @ [NEW]\<rparr>"
proof -
  from assms obtain NEW accs where n: "new_transaction v = Inr NEW"
    and r: "row_accepted uid db NEW = None"
    and f: "tx_id NEW \<notin> tx_id ` set (transactions db)"
    and t: "fire_triggers [INSERT NEW] (accounts db) = Inr accs"
    and d: "db' = db\<lparr>accounts := accs, transactions := transactions db @ [NEW]\<rparr>"
    unfolding insert_transaction_def
    by (auto split: sum.splits option.splits if_splits)
  from fire_triggers_result [OF t]
  have "accs = map (bump (account_id NEW) (contribution NEW)) (accounts db)"
    by simp
  with n r f d show ?thesis by (intro that) simp_all
qed

lemma plus_minus_Num: "x + Num k - Num k = x"
  by (cases x) simp_all

lemma current_bump:
  "current_balance (bump aid c a) = (if acc_id a = aid then current_balance a + c else current_balance a)"
  by (simp add: bump_def)

lemma undo_bump:
  assumes "list_all (\<lambda>a. decimal_15_2 (current_balance a)) accs"
  shows "set_current_balance (\<lambda>b. b - Num k) aid (map (bump aid (Num k)) accs) = Inr accs"
proof -
  have "map ((\<lambda>a. if acc_id a = aid then a\<lparr>current_balance := current_balance a - Num k\<rparr> else a) \<circ>
             bump aid (Num k)) accs = accs"
    by (rule map_idI) (simp add: bump_def plus_minus_Num)
  moreover have "\<not> (acc_id (bump aid (Num k) a) = aid \<and>
           \<not> decimal_15_2 (current_balance (bump aid (Num k) a) - Num k))" if "a \<in> set accs" for a
    using assms that by (simp add: current_bump plus_minus_Num list_all_iff)
  then have "\<not> list_ex (\<lambda>a. acc_id a = aid \<and> \<not> decimal_15_2 (current_balance a - Num k))
           (map (bump aid (Num k)) accs)"
    unfolding list_ex_iff set_map by blast
  ultimately show ?thesis
    unfolding set_current_balance_def by (simp only: if_False map_map)
qed

text \<open>
  Claim C4 fails on an amount that is not a number. In the example database user 7
  inserts an expense with the amount \<^verbatim>\<open>NaN\<close> on account 2, whose balance is 0.00, and
  deletes it again. Both statements complete, and the balance of account 2 is \<^verbatim>\<open>NaN\<close>,
  not the 0.00 it was before the transaction was created.
\<close>

theorem nan_not_undone:
  "map current_balance (accounts example_db) = [Num 12000, Num 0] \<and>
   execute 7 (INSERT_INTO_transactions
       \<lparr>v_id = 13, v_user_id = Some 7, v_account_id = Some 2, v_category_id = None,
        v_type = Some ''expense'', v_amount = Some NaN, v_date = 3\<rparr>) example_db =
     Inr (example_db
       \<lparr>accounts :=
          [\<lparr>acc_id = 1, acc_user_id = 7, initial_balance = Num 10000, current_balance = Num 12000\<rparr>,
           \<lparr>acc_id = 2, acc_user_id = 7, initial_balance = Num 0, current_balance = NaN\<rparr>],
        transactions := transactions example_db @
          [\<lparr>tx_id = 13, tx_user_id = 7, account_id = 2, category_id = None,
            tx_type = expense, amount = NaN, date = 3\<rparr>]\<rparr>) \<and>
   execute 7 (DELETE_FROM_transactions 13)
     (example_db
       \<lparr>accounts :=
          [\<lparr>acc_id = 1, acc_user_id = 7, initial_balance = Num 10000, current_balance = Num 12000\<rparr>,
           \<lparr>acc_id = 2, acc_user_id = 7, initial_balance = Num 0, current_balance = NaN\<rparr>],
        transactions := transactions example_db @
          [\<lparr>tx_id = 13, tx_user_id = 7, account_id = 2, category_id = None,
            tx_type = expense, amount = NaN, date = 3\<rparr>]\<rparr>) =
     Inr (example_db
       \<lparr>accounts :=
          [\<lparr>acc_id = 1, acc_user_id = 7, initial_balance = Num 10000, current_balance = Num 12000\<rparr>,
           \<lparr>acc_id = 2, acc_user_id = 7, initial_balance = Num 0, current_balance = NaN\<rparr>]\<rparr>)"
  by (simp add: evaluate_statement example_db_def)

text \<open>
  Claim C4, for an amount that is a number. In a stored state, when a user's insert of a
  transaction whose amount is not \<^verbatim>\<open>NaN\<close> completes, the same user's delete of that
  transaction completes too and gives back the database of before the insert: the
  balance of the transaction's account, the balance of every other account and the
  transactions table are exactly what they were.
\<close>

theorem delete_undoes_create:
  assumes "well_formed db" and "v_amount v \<noteq> Some NaN"
    and "execute uid (INSERT_INTO_transactions v) db = Inr db1"
  shows "execute uid (DELETE_FROM_transactions (v_id v)) db1 = Inr db"
proof -
  from assms(3) have "insert_transaction uid v db = Inr db1" by simp
  then obtain NEW where n: "new_transaction v = Inr NEW" and r: "row_accepted uid db NEW = None"
    and fresh: "tx_id NEW \<notin> tx_id ` set (transactions db)"
    and db1: "db1 = db\<lparr>accounts := map (bump (account_id NEW) (contribution NEW)) (accounts db),
                        transactions := transactions db @ [NEW]\<rparr>"
    by (rule insert_transaction_result)
  have id: "tx_id NEW = v_id v" by (rule new_transaction_Inr(1) [OF n])
  have own: "tx_user_id NEW = uid" by (rule row_accepted_None(1) [OF r])
  from new_transaction_Inr(3) [OF n] assms(2) have "amount NEW \<noteq> NaN" by auto
  then obtain k where k: "contribution NEW = Num k"
    by (metis contribution_number)
  from fresh id have old: "\<forall>t \<in> set (transactions db). tx_id t \<noteq> v_id v" by (metis imageI)
  have rows: "delete_rows (\<lambda>r. tx_id r = v_id v \<and> tx_user_id r = uid) (transactions db1) =
                (transactions db, [DELETE NEW])"
    using old by (simp add: delete_rows_def db1 id own filter_id_conv filter_empty_conv)
  from assms(1) have fits: "list_all (\<lambda>a. decimal_15_2 (current_balance a)) (accounts db)"
    by (simp add: well_formed_def list_all_iff)
  from undo_bump [OF fits, of k "account_id NEW"]
  have "fire_triggers [DELETE NEW] (accounts db1) = Inr (accounts db)"
    by (simp add: db1 signed_case_signed contribution_def [symmetric] k)
  with rows show ?thesis
    by (simp add: delete_transaction_def db1)
qed

theorem delete_undoes_create_witness:
  "well_formed example_db \<and>
   execute 7 (INSERT_INTO_transactions
       \<lparr>v_id = 13, v_user_id = Some 7, v_account_id = Some 2, v_category_id = Some 5,
        v_type = Some ''expense'', v_amount = Some (Num 4200), v_date = 3\<rparr>) example_db =
     Inr (example_db
       \<lparr>accounts :=
          [\<lparr>acc_id = 1, acc_user_id = 7, initial_balance = Num 10000, current_balance = Num 12000\<rparr>,
           \<lparr>acc_id = 2, acc_user_id = 7, initial_balance = Num 0, current_balance = Num (- 4200)\<rparr>],
        transactions := transactions example_db @
          [\<lparr>tx_id = 13, tx_user_id = 7, account_id = 2, category_id = Some 5,
            tx_type = expense, amount = Num 4200, date = 3\<rparr>]\<rparr>) \<and>
   execute 7 (DELETE_FROM_transactions 13)
     (example_db
       \<lparr>accounts :=
          [\<lparr>acc_id = 1, acc_user_id = 7, initial_balance = Num 10000, current_balance = Num 12000\<rparr>,
           \<lparr>acc_id = 2, acc_user_id = 7, initial_balance = Num 0, current_balance = Num (- 4200)\<rparr>],
        transactions := transactions example_db @
          [\<lparr>tx_id = 13, tx_user_id = 7, account_id = 2, category_id = Some 5,
            tx_type = expense, amount = Num 4200, date = 3\<rparr>]\<rparr>) = Inr example_db"
proof -
  let ?v = "\<lparr>v_id = 13, v_user_id = Some 7, v_account_id = Some 2, v_category_id = Some 5,
        v_type = Some ''expense'', v_amount = Some (Num 4200), v_date = 3\<rparr>"
  have ex: "execute 7 (INSERT_INTO_transactions ?v) example_db =
     Inr (example_db
       \<lparr>accounts :=
          [\<lparr>acc_id = 1, acc_user_id = 7, initial_balance = Num 10000, current_balance = Num 12000\<rparr>,
           \<lparr>acc_id = 2, acc_user_id = 7, initial_balance = Num 0, current_balance = Num (- 4200)\<rparr>],
        transactions := transactions example_db @
          [\<lparr>tx_id = 13, tx_user_id = 7, account_id = 2, category_id = Some 5,
            tx_type = expense, amount = Num 4200, date = 3\<rparr>]\<rparr>)"
    by (simp add: evaluate_statement example_db_def)
  have "v_amount ?v \<noteq> Some NaN" by simp
  from delete_undoes_create [OF example_well_formed this ex] example_well_formed ex
  show ?thesis by simp
qed

section \<open>Deleting an account\<close>

lemma set_current_balance_absent:
  "aid \<notin> acc_id ` set accs \<Longrightarrow> set_current_balance f aid accs = Inr accs"
proof -
  assume "aid \<notin> acc_id ` set accs"
  then have other: "\<forall>a \<in> set accs. acc_id a \<noteq> aid" by (metis imageI)
  then have "map (\<lambda>a. if acc_id a = aid then a\<lparr>current_balance := f (current_balance a)\<rparr> else a) accs = accs"
    by (intro map_idI) simp
  with other show ?thesis
    by (simp add: set_current_balance_def list_ex_iff)
qed

lemma fire_deletes_absent:
  assumes "aid \<notin> acc_id ` set accs" and "\<forall>t \<in> set ts. account_id t = aid"
  shows "fire_triggers (map DELETE ts) accs = Inr accs"
  using assms(2)
  by (induction ts) (simp_all add: set_current_balance_absent [OF assms(1)])

lemma delete_account_result:
  assumes "well_formed db" and "a \<in> set (accounts db)" and "acc_user_id a = uid"
  shows "delete_account uid (acc_id a) db =
           Inr (db\<lparr>accounts := filter (\<lambda>b. acc_id b \<noteq> acc_id a) (accounts db),
                   transactions := filter (\<lambda>t. account_id t \<noteq> acc_id a) (transactions db)\<rparr>)"
proof -
  from assms(1) have d: "distinct (map acc_id (accounts db))"
    by (simp add: well_formed_def)
  have only: "b = a" if "b \<in> set (accounts db)" and "acc_id b = acc_id a" for b
    using d assms(2) that by (meson distinct_map inj_onD)
  have left: "filter (\<lambda>b. \<not> (acc_id b = acc_id a \<and> acc_user_id b = uid)) (accounts db) =
              filter (\<lambda>b. acc_id b \<noteq> acc_id a) (accounts db)"
    by (rule filter_cong) (use only assms(3) in auto)
  have gone: "acc_id a \<notin> acc_id ` set (filter (\<lambda>b. acc_id b \<noteq> acc_id a) (accounts db))"
    by auto
  have "fire_triggers (map DELETE (filter (\<lambda>r. account_id r = acc_id a) (transactions db)))
          (filter (\<lambda>b. acc_id b \<noteq> acc_id a) (accounts db)) =
        Inr (filter (\<lambda>b. acc_id b \<noteq> acc_id a) (accounts db))"
    by (rule fire_deletes_absent [OF gone]) simp
  moreover have "list_ex (\<lambda>b. acc_id b = acc_id a \<and> acc_user_id b = uid) (accounts db)"
    using assms(2,3) by (auto simp: list_ex_iff)
  ultimately show ?thesis
    unfolding delete_account_def delete_rows_def left by simp
qed

text \<open>
  Claim C5. In a stored state, a user's delete of one of the user's accounts completes.
  Afterwards the account is gone, every transaction that referenced it is gone and no
  other transaction is, and every other account row is exactly what it was: the trigger
  firings of the cascaded deletes find no account to change.
\<close>

theorem account_delete_cascades:
  assumes "well_formed db" and "a \<in> set (accounts db)" and "acc_user_id a = uid"
  shows "execute uid (DELETE_FROM_accounts (acc_id a)) db =
           Inr (db\<lparr>accounts := filter (\<lambda>b. acc_id b \<noteq> acc_id a) (accounts db),
                   transactions := filter (\<lambda>t. account_id t \<noteq> acc_id a) (transactions db)\<rparr>)"
  using assms by (simp add: delete_account_result)

theorem account_delete_cascades_witness:
  "well_formed example_db \<and>
   execute 7 (DELETE_FROM_accounts 1) example_db =
     Inr \<lparr>accounts = [\<lparr>acc_id = 2, acc_user_id = 7, initial_balance = Num 0, current_balance = Num 0\<rparr>],
          categories = [\<lparr>cat_id = 5, cat_user_id = 7, cat_transaction_type = expense\<rparr>],
          transactions = []\<rparr>"
  using account_delete_cascades
    [OF example_well_formed, of
      "\<lparr>acc_id = 1, acc_user_id = 7, initial_balance = Num 10000, current_balance = Num 12000\<rparr>" 7]
    example_well_formed
  by (simp add: example_db_def)

section \<open>Deleting a category\<close>

lemma update_rows_set_null:
  "update_rows (\<lambda>r. category_id r = Some c) (\<lambda>OLD. Inr (OLD\<lparr>category_id := None\<rparr>)) txs =
     Inr (map (\<lambda>t. if category_id t = Some c then t\<lparr>category_id := None\<rparr> else t) txs,
          map (\<lambda>t. UPDATE t (t\<lparr>category_id := None\<rparr>)) (filter (\<lambda>r. category_id r = Some c) txs))"
  by (induction txs) simp_all

lemma revert_apply: "(amount t = NaN \<longrightarrow> b = NaN) \<Longrightarrow> b - contribution t + contribution t = b"
  by (cases b; cases "contribution t") (simp_all add: contribution_NaN [symmetric])

lemma nan_absorbedD:
  assumes "nan_absorbed db" and "t \<in> set (transactions db)" and "a \<in> set (accounts db)"
    and "acc_id a = account_id t" and "amount t = NaN"
  shows "current_balance a = NaN"
  using assms by (auto simp: nan_absorbed_def list_all_iff)

lemma set_null_event:
  assumes "amount t = NaN \<longrightarrow> (acc_id a = account_id t \<longrightarrow> current_balance a = NaN)"
  shows "apply_event (UPDATE t (t\<lparr>category_id := None\<rparr>)) a = a"
proof (cases "acc_id a = account_id t")
  case True
  with assms have "current_balance a - contribution t + contribution t = current_balance a"
    by (intro revert_apply) simp
  with True show ?thesis
    by (simp add: bump_def contribution_def decimal_diff_conv)
next
  case False
  then show ?thesis by (simp add: bump_def)
qed

lemma set_null_events:
  assumes "\<forall>t \<in> set ts. amount t = NaN \<longrightarrow> (acc_id a = account_id t \<longrightarrow> current_balance a = NaN)"
  shows "apply_events (map (\<lambda>t. UPDATE t (t\<lparr>category_id := None\<rparr>)) ts) a = a"
  using assms
proof (induction ts)
  case Nil
  then show ?case by simp
next
  case (Cons t ts)
  then have "apply_event (UPDATE t (t\<lparr>category_id := None\<rparr>)) a = a"
    by (intro set_null_event) simp
  moreover have "apply_events (map (\<lambda>t. UPDATE t (t\<lparr>category_id := None\<rparr>)) (t # ts)) a =
      apply_events (map (\<lambda>t. UPDATE t (t\<lparr>category_id := None\<rparr>)) ts)
        (apply_event (UPDATE t (t\<lparr>category_id := None\<rparr>)) a)"
    by simp
  ultimately show ?case using Cons by simp
qed

lemma fire_set_null_result:
  assumes "nan_absorbed db" and "set ts \<subseteq> set (transactions db)"
    and "fire_triggers (map (\<lambda>t. UPDATE t (t\<lparr>category_id := None\<rparr>)) ts) (accounts db) = Inr accs"
  shows "accs = accounts db"
proof -
  have "map (apply_events (map (\<lambda>t. UPDATE t (t\<lparr>category_id := None\<rparr>)) ts)) (accounts db) = accounts db"
  proof (rule map_idI)
    fix a assume "a \<in> set (accounts db)"
    with assms(1,2) show "apply_events (map (\<lambda>t. UPDATE t (t\<lparr>category_id := None\<rparr>)) ts) a = a"
      by (intro set_null_events) (auto dest: nan_absorbedD)
  qed
  with fire_triggers_result [OF assms(3)] show ?thesis by simp
qed

lemma revert_then_apply:
  assumes "list_all (\<lambda>a. decimal_15_2 (current_balance a)) accs"
    and "\<forall>a \<in> set accs. acc_id a = account_id t \<longrightarrow>
           decimal_15_2 (current_balance a - contribution t) \<and> (amount t = NaN \<longrightarrow> current_balance a = NaN)"
    and "account_id t' = account_id t" and "contribution t' = contribution t"
  shows "update_account_balance (UPDATE t t') accs = Inr accs"
proof -
  let ?mid = "map (\<lambda>a. if acc_id a = account_id t
                  then a\<lparr>current_balance := current_balance a - contribution t\<rparr> else a) accs"
  from assms(2) have 1: "set_current_balance (\<lambda>b. b - contribution t) (account_id t) accs = Inr ?mid"
    by (auto simp: set_current_balance_def list_ex_iff)
  have restored: "a \<in> set accs \<Longrightarrow> acc_id a = account_id t \<Longrightarrow>
          current_balance a - contribution t + contribution t = current_balance a" for a
    using assms(2) by (intro revert_apply) simp
  have "\<not> list_ex (\<lambda>a. acc_id a = account_id t \<and> \<not> decimal_15_2 (current_balance a + contribution t)) ?mid"
    using assms(1) unfolding list_ex_iff set_map list_all_iff
    by (auto simp: restored)
  moreover have "map ((\<lambda>a. if acc_id a = account_id t
                  then a\<lparr>current_balance := current_balance a + contribution t\<rparr> else a) \<circ>
             (\<lambda>a. if acc_id a = account_id t
                  then a\<lparr>current_balance := current_balance a - contribution t\<rparr> else a)) accs = accs"
    by (rule map_idI) (simp add: restored)
  ultimately have 2: "set_current_balance (\<lambda>b. b + contribution t) (account_id t) ?mid = Inr accs"
    unfolding set_current_balance_def by (simp only: if_False map_map)
  from 1 2 assms(3,4) show ?thesis
    by (simp add: signed_case_signed contribution_def [symmetric])
qed

lemma fire_set_null:
  assumes "list_all (\<lambda>a. decimal_15_2 (current_balance a)) accs"
    and "\<forall>t \<in> set ts. \<forall>a \<in> set accs. acc_id a = account_id t \<longrightarrow>
           decimal_15_2 (current_balance a - contribution t) \<and> (amount t = NaN \<longrightarrow> current_balance a = NaN)"
  shows "fire_triggers (map (\<lambda>t. UPDATE t (t\<lparr>category_id := None\<rparr>)) ts) accs = Inr accs"
  using assms(2)
proof (induction ts)
  case Nil
  then show ?case by simp
next
  case (Cons t ts)
  have "update_account_balance (UPDATE t (t\<lparr>category_id := None\<rparr>)) accs = Inr accs"
    by (rule revert_then_apply [OF assms(1)]) (use Cons.prems in \<open>simp_all add: contribution_def\<close>)
  with Cons show ?case by simp
qed

text \<open>
  The trigger reverts and re-applies each rewritten transaction. The deletion of a
  category therefore completes in a stored state whenever taking the contribution of
  each referencing transaction off the balance of its account stays within the column.
\<close>

lemma category_delete_completes:
  assumes "well_formed db" and "nan_absorbed db"
    and "\<forall>t \<in> set (transactions db). category_id t = Some cid \<longrightarrow>
           (\<forall>a \<in> set (accounts db). acc_id a = account_id t \<longrightarrow>
              decimal_15_2 (current_balance a - signed_contribution (tx_type t) (amount t)))"
  shows "\<exists>db'. execute uid (DELETE_FROM_categories cid) db = Inr db'"
proof -
  from assms(1) have fits: "list_all (\<lambda>a. decimal_15_2 (current_balance a)) (accounts db)"
    by (simp add: well_formed_def list_all_iff)
  have "fire_triggers
          (map (\<lambda>t. UPDATE t (t\<lparr>category_id := None\<rparr>))
             (filter (\<lambda>r. category_id r = Some cid) (transactions db)))
          (accounts db) = Inr (accounts db)"
    by (rule fire_set_null [OF fits])
      (use assms(2,3) in \<open>auto simp: contribution_def dest: nan_absorbedD\<close>)
  then show ?thesis
    by (simp add: delete_category_def update_rows_set_null)
qed

lemma delete_category_result:
  assumes "nan_absorbed db"
    and "list_ex (\<lambda>k. cat_id k = cid \<and> cat_user_id k = uid) (categories db)"
    and "delete_category uid cid db = Inr db'"
  shows "db' = db\<lparr>categories := filter (\<lambda>k. \<not> (cat_id k = cid \<and> cat_user_id k = uid)) (categories db),
                  transactions :=
                    map (\<lambda>t. if category_id t = Some cid then t\<lparr>category_id := None\<rparr> else t)
                      (transactions db)\<rparr>"
proof -
  let ?evs = "map (\<lambda>t. UPDATE t (t\<lparr>category_id := None\<rparr>))
                (filter (\<lambda>r. category_id r = Some cid) (transactions db))"
  from assms(2,3) obtain accs where f: "fire_triggers ?evs (accounts db) = Inr accs"
    and db': "db' = db\<lparr>accounts := accs,
                  categories := filter (\<lambda>k. \<not> (cat_id k = cid \<and> cat_user_id k = uid)) (categories db),
                  transactions :=
                    map (\<lambda>t. if category_id t = Some cid then t\<lparr>category_id := None\<rparr> else t)
                      (transactions db)\<rparr>"
    by (auto simp: delete_category_def update_rows_set_null split: sum.splits)
  have "accs = accounts db"
    by (rule fire_set_null_result [OF assms(1) _ f]) simp
  with db' show ?thesis by simp
qed

lemma clear_category_deletes:
  "fire_triggers (map DELETE (map (\<lambda>t. if category_id t = Some cid then t\<lparr>category_id := None\<rparr> else t) ts)) accs =
   fire_triggers (map DELETE ts) accs"
  by (induction ts arbitrary: accs) (simp_all split: sum.splits)

lemma clear_category_filter:
  "filter (\<lambda>r. tx_id r = tid \<and> tx_user_id r = u)
     (map (\<lambda>t. if category_id t = Some cid then t\<lparr>category_id := None\<rparr> else t) ts) =
   map (\<lambda>t. if category_id t = Some cid then t\<lparr>category_id := None\<rparr> else t)
     (filter (\<lambda>r. tx_id r = tid \<and> tx_user_id r = u) ts)"
  by (induction ts) simp_all

lemma delete_transaction_aborted:
  "(\<exists>e. delete_transaction u tid db = Inl e) \<longleftrightarrow>
   (\<exists>e. fire_triggers (snd (delete_rows (\<lambda>r. tx_id r = tid \<and> tx_user_id r = u) (transactions db)))
          (accounts db) = Inl e)"
  by (auto simp: delete_transaction_def case_prod_beta split: sum.splits)



section \<open>Values the columns refuse\<close>

text \<open>
  Claim C7. A transaction insert whose type is a text other than \<open>income\<close> and
  \<open>expense\<close>, and a transaction update that assigns such a text to the type, is aborted
  with an error by the enum's input function, for any user, any other values and any
  database; the database after it is the database before it, so no transaction was
  stored or changed with a zero or an expense contribution and no balance moved.
\<close>

theorem unknown_type_rejected:
  assumes "txt \<noteq> ''income''" and "txt \<noteq> ''expense''"
  shows "execute uid (INSERT_INTO_transactions (v\<lparr>v_type := Some txt\<rparr>)) db = Inl invalid_text_representation \<and>
         after_statement uid (INSERT_INTO_transactions (v\<lparr>v_type := Some txt\<rparr>)) db = db \<and>
         execute uid (UPDATE_transactions tid (p\<lparr>set_type := SetTo txt\<rparr>)) db = Inl invalid_text_representation \<and>
         after_statement uid (UPDATE_transactions tid (p\<lparr>set_type := SetTo txt\<rparr>)) db = db"
  using assms
  by (simp add: after_statement_def insert_transaction_def new_transaction_def
      update_transaction_def transaction_type_in_def)

theorem unknown_type_rejected_witness:
  "execute 7 (INSERT_INTO_transactions
       \<lparr>v_id = 13, v_user_id = Some 7, v_account_id = Some 1, v_category_id = None,
        v_type = Some ''transfer'', v_amount = Some (Num 4200), v_date = 3\<rparr>) example_db =
     Inl invalid_text_representation \<and>
   after_statement 7 (INSERT_INTO_transactions
       \<lparr>v_id = 13, v_user_id = Some 7, v_account_id = Some 1, v_category_id = None,
        v_type = Some ''transfer'', v_amount = Some (Num 4200), v_date = 3\<rparr>) example_db = example_db \<and>
   execute 7 (UPDATE_transactions 11 (set_nothing\<lparr>set_type := SetTo ''transfer''\<rparr>)) example_db =
     Inl invalid_text_representation \<and>
   after_statement 7 (UPDATE_transactions 11 (set_nothing\<lparr>set_type := SetTo ''transfer''\<rparr>)) example_db =
     example_db"
  using unknown_type_rejected
    [of "''transfer''" 7
      "\<lparr>v_id = 13, v_user_id = Some 7, v_account_id = Some 1, v_category_id = None,
        v_type = None, v_amount = Some (Num 4200), v_date = 3\<rparr>" example_db 11 set_nothing]
  by simp

lemma update_rows_fails:
  assumes "t \<in> set txs" and "affected t" and "new t = Inl e"
  shows "\<exists>e'. update_rows affected new txs = Inl e'"
  using assms(1)
proof (induction txs)
  case Nil
  then show ?case by simp
next
  case (Cons r txs)
  show ?case
  proof (cases "r = t")
    case True
    with assms(2,3) show ?thesis by simp
  next
    case False
    with Cons obtain e' where "update_rows affected new txs = Inl e'" by auto
    then show ?thesis by (simp split: sum.splits)
  qed
qed

lemma after_aborted: "execute uid q db = Inl e \<Longrightarrow> after_statement uid q db = db"
  by (simp add: after_statement_def)

text \<open>
  Claim C8 says that an amount that is not a valid non-negative number, a negative one
  in particular, is rejected. Neither the table nor the form checks the sign. Here the
  signed-in user 7 submits the transaction form for an expense of \<open>-5.00\<close> on account 1:
  the insert completes, the row is stored with the amount \<open>-5.00\<close>, and the balance of the
  account goes up from 120.00 to 125.00.
\<close>

theorem negative_amount_accepted:
  "handleSubmit (Some 7) 13 expense
     \<lparr>accountId = Some 1, categoryId = None, amount_field = Some (- 500), date_field = 3\<rparr>
     example_db =
   Inr (example_db
     \<lparr>accounts :=
        [\<lparr>acc_id = 1, acc_user_id = 7, initial_balance = Num 10000, current_balance = Num 12500\<rparr>,
         \<lparr>acc_id = 2, acc_user_id = 7, initial_balance = Num 0, current_balance = Num 0\<rparr>],
      transactions := transactions example_db @
        [\<lparr>tx_id = 13, tx_user_id = 7, account_id = 1, category_id = None,
          tx_type = expense, amount = Num (- 500), date = 3\<rparr>]\<rparr>)"
  by (simp add: handleSubmit_def transaction_type_out_def evaluate_statement example_db_def)

text \<open>
  Claim C8, as the code has it. What the column does refuse is an amount that is missing
  or does not fit \<^verbatim>\<open>DECIMAL(15,2)\<close>: an insert with no amount (as a form entry that is not a
  number is sent) or with an amount that does not fit, an update that assigns an amount
  that does not fit, and an update that assigns null to the amount of one of the user's
  transactions, is aborted with an error, and the database after it is the database
  before it: no transaction record is stored or changed and no balance moves.
\<close>

theorem unfit_amount_rejected:
  "(v_amount v = None \<or> (\<exists>m. v_amount v = Some m \<and> \<not> decimal_15_2 m) \<longrightarrow>
      (\<exists>e. execute uid (INSERT_INTO_transactions v) db = Inl e) \<and>
      after_statement uid (INSERT_INTO_transactions v) db = db) \<and>
   (set_amount p = SetTo m \<and> \<not> decimal_15_2 m \<longrightarrow>
      (\<exists>e. execute uid (UPDATE_transactions tid p) db = Inl e) \<and>
      after_statement uid (UPDATE_transactions tid p) db = db) \<and>
   (set_amount p = SetNull \<and> t \<in> set (transactions db) \<and> tx_user_id t = uid \<longrightarrow>
      (\<exists>e. execute uid (UPDATE_transactions (tx_id t) p) db = Inl e) \<and>
      after_statement uid (UPDATE_transactions (tx_id t) p) db = db)"
proof (intro conjI impI)
  assume "v_amount v = None \<or> (\<exists>m. v_amount v = Some m \<and> \<not> decimal_15_2 m)"
  then have "\<exists>e. new_transaction v = Inl e"
    by (auto simp: new_transaction_def split: option.splits sum.splits)
  then show ins: "\<exists>e. execute uid (INSERT_INTO_transactions v) db = Inl e"
    by (auto simp: insert_transaction_def)
  then show "after_statement uid (INSERT_INTO_transactions v) db = db"
    by (auto simp: after_aborted)
next
  assume "set_amount p = SetTo m \<and> \<not> decimal_15_2 m"
  then have "coerce_amount (set_amount p) = Inl numeric_value_out_of_range" by simp
  then show "\<exists>e. execute uid (UPDATE_transactions tid p) db = Inl e"
    by (auto simp: update_transaction_def split: sum.splits)
  then show "after_statement uid (UPDATE_transactions tid p) db = db"
    by (auto simp: after_aborted)
next
  assume a: "set_amount p = SetNull \<and> t \<in> set (transactions db) \<and> tx_user_id t = uid"
  have "\<exists>e. update_transaction uid (tx_id t) p db = Inl e"
  proof (cases "coerce_type (set_type p)")
    case (Inl e)
    then show ?thesis by (simp add: update_transaction_def)
  next
    case (Inr ty)
    have "\<exists>e. assign_row p ty SetNull t = Inl e"
      by (simp add: assign_row_def split: sum.splits)
    then obtain e where "assign_row p ty SetNull t = Inl e" ..
    then have "\<exists>e'. update_rows (\<lambda>r. tx_id r = tx_id t \<and> tx_user_id r = uid)
           (\<lambda>OLD. case assign_row p ty SetNull OLD of
                     Inl e \<Rightarrow> Inl e
                   | Inr NEW \<Rightarrow> (case row_accepted uid db NEW of Some e \<Rightarrow> Inl e | None \<Rightarrow> Inr NEW))
           (transactions db) = Inl e'"
      using a by (intro update_rows_fails [where t = t and e = e]) simp_all
    with Inr a show ?thesis
      by (auto simp: update_transaction_def)
  qed
  then show "\<exists>e. execute uid (UPDATE_transactions (tx_id t) p) db = Inl e" by simp
  then show "after_statement uid (UPDATE_transactions (tx_id t) p) db = db"
    by (auto simp: after_aborted)
qed

theorem unfit_amount_rejected_witness:
  "(\<exists>e. execute 7 (INSERT_INTO_transactions
       \<lparr>v_id = 13, v_user_id = Some 7, v_account_id = Some 1, v_category_id = None,
        v_type = Some ''income'', v_amount = None, v_date = 3\<rparr>) example_db = Inl e) \<and>
   after_statement 7 (INSERT_INTO_transactions
       \<lparr>v_id = 13, v_user_id = Some 7, v_account_id = Some 1, v_category_id = None,
        v_type = Some ''income'', v_amount = None, v_date = 3\<rparr>) example_db = example_db \<and>
   after_statement 7 (UPDATE_transactions 11 (set_nothing\<lparr>set_amount := SetTo (Num (10 ^ 15))\<rparr>)) example_db =
     example_db \<and>
   after_statement 7 (UPDATE_transactions 11 (set_nothing\<lparr>set_amount := SetNull\<rparr>)) example_db =
     example_db"
  using
    unfit_amount_rejected
      [where v = "\<lparr>v_id = 13, v_user_id = Some 7, v_account_id = Some 1, v_category_id = None,
            v_type = Some ''income'', v_amount = None, v_date = 3\<rparr>"
        and uid = 7 and db = example_db and p = "set_nothing\<lparr>set_amount := SetTo (Num (10 ^ 15))\<rparr>"
        and m = "Num (10 ^ 15)" and tid = 11
        and t = "\<lparr>tx_id = 11, tx_user_id = 7, account_id = 1, category_id = None,
            tx_type = income, amount = Num 5000, date = 1\<rparr>"]
    unfit_amount_rejected
      [where v = "\<lparr>v_id = 13, v_user_id = Some 7, v_account_id = Some 1, v_category_id = None,
            v_type = Some ''income'', v_amount = None, v_date = 3\<rparr>"
        and uid = 7 and db = example_db and p = "set_nothing\<lparr>set_amount := SetNull\<rparr>"
        and m = NaN and tid = 11
        and t = "\<lparr>tx_id = 11, tx_user_id = 7, account_id = 1, category_id = None,
            tx_type = income, amount = Num 5000, date = 1\<rparr>"]
  by (simp add: decimal_15_2_def set_nothing_def example_db_def)

section \<open>The dashboard totals\<close>

lemma fetchData_Some:
  assumes "fetchData uid db accs ys = Some (fetched_accounts, fetched)"
  shows "fetched_accounts = accs" and "fetched = take 50 ys"
    and "mset accs = mset (select_accounts uid db)"
    and "mset ys = mset (select_transactions uid db)"
    and "sorted_wrt (\<lambda>a b. date b \<le> date a) ys"
  using assms
  by (simp_all add: fetchData_def order_by_created_at_def order_by_date_desc_def split: if_splits)

lemma mset_take_drop: "mset (take n xs) + mset (drop n xs) = mset xs"
  by (metis append_take_drop_id mset_append)

lemma latest_first:
  assumes "sorted_wrt (\<lambda>a b. date b \<le> date a) ys"
    and "t \<in> set (take n ys)" and "t' \<in> set (drop n ys)"
  shows "date t' \<le> date t"
proof -
  from assms(1) have "sorted_wrt (\<lambda>a b. date b \<le> date a) (take n ys @ drop n ys)"
    by simp
  with assms(2,3) show ?thesis
    unfolding sorted_wrt_append by blast
qed

lemma js_sum_foldl:
  "foldl (\<lambda>sum x. js_plus js sum (js_Number js (js_numeric js (f x)))) (js_zero js) xs =
   js_sum js (map f xs)"
  by (simp add: js_sum_def foldl_map)

lemma calculateTotals_income:
  "totalIncome (calculateTotals js sel accs txs) = js_sum js (map amount (of_type income sel txs))"
  by (cases sel) (simp_all add: calculateTotals_def of_type_def js_sum_foldl conj_commute)

lemma calculateTotals_expenses:
  "totalExpenses (calculateTotals js sel accs txs) = js_sum js (map amount (of_type expense sel txs))"
  by (cases sel) (simp_all add: calculateTotals_def of_type_def js_sum_foldl conj_commute)

lemma calculateTotals_balance:
  "totalBalance (calculateTotals js None accs txs) = js_sum js (map current_balance accs)"
  by (simp add: calculateTotals_def js_sum_foldl)

lemma calculateTotals_absent:
  assumes "\<forall>a \<in> set accs. acc_id a \<noteq> s"
  shows "totalBalance (calculateTotals js (Some s) accs txs) = js_zero js"
proof -
  from assms have "find (\<lambda>acc. acc_id acc = s) accs = None"
    by (simp add: find_None_iff)
  then show ?thesis by (simp add: calculateTotals_def)
qed

lemma calculateTotals_selected:
  assumes "distinct (map acc_id accs)" and "a \<in> set accs"
  shows "totalBalance (calculateTotals js (Some (acc_id a)) accs txs) =
           (if js_falsy js (js_numeric js (current_balance a)) then js_zero js
            else js_numeric js (current_balance a))"
proof -
  from assms(2) obtain a' where f: "find (\<lambda>acc. acc_id acc = acc_id a) accs = Some a'"
    by (cases "find (\<lambda>acc. acc_id acc = acc_id a) accs") (auto simp: find_None_iff)
  then have "a' \<in> set accs" and "acc_id a' = acc_id a"
    by (auto simp: find_Some_iff)
  with assms have "a' = a"
    by (auto simp: distinct_map dest: inj_onD)
  with f show ?thesis by (simp add: calculateTotals_def)
qed



section \<open>Every stored state is well formed\<close>

text \<open>
  The constraints of the schema hold in the empty database and are kept by every
  statement, so they hold in every database the statements can reach.
\<close>

lemma set_current_balance_fits:
  assumes "set_current_balance f aid accs = Inr accs'" and "list_all (\<lambda>a. decimal_15_2 (initial_balance a) \<and> decimal_15_2 (current_balance a)) accs"
  shows "list_all (\<lambda>a. decimal_15_2 (initial_balance a) \<and> decimal_15_2 (current_balance a)) accs'"
  using assms
  by (auto simp: set_current_balance_def list_all_iff list_ex_iff split: if_splits)

lemma update_account_balance_fits:
  assumes "update_account_balance ev accs = Inr accs'" and "list_all (\<lambda>a. decimal_15_2 (initial_balance a) \<and> decimal_15_2 (current_balance a)) accs"
  shows "list_all (\<lambda>a. decimal_15_2 (initial_balance a) \<and> decimal_15_2 (current_balance a)) accs'"
  using assms
  by (cases ev) (auto split: sum.splits dest: set_current_balance_fits)

lemma fire_triggers_fits:
  "fire_triggers evs accs = Inr accs' \<Longrightarrow> list_all (\<lambda>a. decimal_15_2 (initial_balance a) \<and> decimal_15_2 (current_balance a)) accs \<Longrightarrow> list_all (\<lambda>a. decimal_15_2 (initial_balance a) \<and> decimal_15_2 (current_balance a)) accs'"
proof (induction evs arbitrary: accs)
  case Nil
  then show ?case by simp
next
  case (Cons ev evs)
  then obtain mid where m: "update_account_balance ev accs = Inr mid"
    and r: "fire_triggers evs mid = Inr accs'"
    by (auto split: sum.splits)
  from update_account_balance_fits [OF m Cons.prems(2)] Cons.IH [OF r] show ?case by simp
qed

lemma empty_well_formed: "well_formed empty_database"
  by (simp add: well_formed_def empty_database_def)

lemma well_formedI:
  assumes "distinct (map acc_id (accounts db))" and "distinct (map cat_id (categories db))"
    and "distinct (map tx_id (transactions db))"
    and "list_all (\<lambda>a. decimal_15_2 (initial_balance a) \<and> decimal_15_2 (current_balance a)) (accounts db)"
    and "\<And>t. t \<in> set (transactions db) \<Longrightarrow> decimal_15_2 (amount t)"
    and "\<And>t. t \<in> set (transactions db) \<Longrightarrow> account_id t \<in> set (map acc_id (accounts db))"
    and "\<And>t c. t \<in> set (transactions db) \<Longrightarrow> category_id t = Some c \<Longrightarrow> c \<in> set (map cat_id (categories db))"
  shows "well_formed db"
  using assms by (auto simp: well_formed_def list_all_iff split: option.splits)

lemma well_formedD:
  assumes "well_formed db"
  shows "distinct (map acc_id (accounts db))" and "distinct (map cat_id (categories db))"
    and "distinct (map tx_id (transactions db))"
    and "list_all (\<lambda>a. decimal_15_2 (initial_balance a) \<and> decimal_15_2 (current_balance a)) (accounts db)"
    and "\<And>t. t \<in> set (transactions db) \<Longrightarrow> decimal_15_2 (amount t)"
    and "\<And>t. t \<in> set (transactions db) \<Longrightarrow> account_id t \<in> set (map acc_id (accounts db))"
    and "\<And>t c. t \<in> set (transactions db) \<Longrightarrow> category_id t = Some c \<Longrightarrow> c \<in> set (map cat_id (categories db))"
  using assms by (auto simp: well_formed_def list_all_iff split: option.splits)

lemma insert_account_well_formed:
  assumes "well_formed db" and "insert_account uid v db = Inr db'"
  shows "well_formed db'"
proof -
  from assms(2) have new: "decimal_15_2 (av_initial_balance v)" "decimal_15_2 (av_current_balance v)"
    "av_id v \<notin> acc_id ` set (accounts db)"
    and db': "db' = db\<lparr>accounts := accounts db @
                   [\<lparr>acc_id = av_id v, acc_user_id = av_user_id v,
                     initial_balance = av_initial_balance v,
                     current_balance = av_current_balance v\<rparr>]\<rparr>"
    by (auto simp: insert_account_def split: if_splits)
  show ?thesis
  proof (rule well_formedI)
    show "distinct (map acc_id (accounts db'))"
      using well_formedD(1) [OF assms(1)] new(3) by (simp add: db')
    show "list_all (\<lambda>a. decimal_15_2 (initial_balance a) \<and> decimal_15_2 (current_balance a)) (accounts db')"
      using well_formedD(4) [OF assms(1)] new(1,2) by (simp add: db')
    show "account_id t \<in> set (map acc_id (accounts db'))" if "t \<in> set (transactions db')" for t
      using well_formedD(6) [OF assms(1), of t] that by (simp add: db')
  qed (use well_formedD [OF assms(1)] in \<open>simp_all add: db'\<close>)
qed

lemma insert_category_well_formed:
  assumes "well_formed db" and "insert_category uid v db = Inr db'"
  shows "well_formed db'"
proof -
  from assms(2) obtain ty where new: "cv_id v \<notin> cat_id ` set (categories db)"
    and db': "db' = db\<lparr>categories := categories db @
                       [\<lparr>cat_id = cv_id v, cat_user_id = cv_user_id v,
                         cat_transaction_type = ty\<rparr>]\<rparr>"
    by (auto simp: insert_category_def split: if_splits sum.splits)
  show ?thesis
  proof (rule well_formedI)
    show "distinct (map cat_id (categories db'))"
      using well_formedD(2) [OF assms(1)] new by (simp add: db')
    show "c \<in> set (map cat_id (categories db'))"
      if "t \<in> set (transactions db')" and "category_id t = Some c" for t c
      using well_formedD(7) [OF assms(1), of t c] that by (simp add: db')
  qed (use well_formedD [OF assms(1)] in \<open>simp_all add: db'\<close>)
qed

lemma insert_transaction_well_formed:
  assumes "well_formed db" and "insert_transaction uid v db = Inr db'"
  shows "well_formed db'"
proof -
  from assms(2) obtain NEW where n: "new_transaction v = Inr NEW"
    and r: "row_accepted uid db NEW = None"
    and fresh: "tx_id NEW \<notin> tx_id ` set (transactions db)"
    and f: "fire_triggers [INSERT NEW] (accounts db) = Inr (accounts db')"
    and t: "transactions db' = transactions db @ [NEW]"
    and c: "categories db' = categories db"
    by (rule insert_transaction_Inr)
  note ids = fire_triggers_ids [OF f]
  show ?thesis
  proof (rule well_formedI)
    show "distinct (map acc_id (accounts db'))"
      using well_formedD(1) [OF assms(1)] by (simp add: ids)
    show "distinct (map cat_id (categories db'))"
      using well_formedD(2) [OF assms(1)] by (simp add: c)
    show "distinct (map tx_id (transactions db'))"
      using well_formedD(3) [OF assms(1)] fresh by (simp add: t)
    show "list_all (\<lambda>a. decimal_15_2 (initial_balance a) \<and> decimal_15_2 (current_balance a)) (accounts db')"
      by (rule fire_triggers_fits [OF f well_formedD(4) [OF assms(1)]])
    show "decimal_15_2 (amount t)" if "t \<in> set (transactions db')" for t
      using that well_formedD(5) [OF assms(1), of t] new_transaction_Inr(2) [OF n] by (auto simp: t)
    show "account_id t \<in> set (map acc_id (accounts db'))" if "t \<in> set (transactions db')" for t
      using that well_formedD(6) [OF assms(1), of t] row_accepted_None(2) [OF r]
      by (auto simp: t ids)
    show "c' \<in> set (map cat_id (categories db'))"
      if "t \<in> set (transactions db')" and "category_id t = Some c'" for t c'
      using that well_formedD(7) [OF assms(1), of t c'] row_accepted_None(3) [OF r]
      by (auto simp: t c)
  qed
qed

lemma delete_transaction_well_formed:
  assumes "well_formed db" and "delete_transaction uid tid db = Inr db'"
  shows "well_formed db'"
proof -
  from assms(2) obtain evs where
    d: "delete_rows (\<lambda>r. tx_id r = tid \<and> tx_user_id r = uid) (transactions db) = (transactions db', evs)"
    and f: "fire_triggers evs (accounts db) = Inr (accounts db')"
    and c: "categories db' = categories db"
    by (rule delete_transaction_Inr)
  from d have t: "transactions db' = filter (\<lambda>r. \<not> (tx_id r = tid \<and> tx_user_id r = uid)) (transactions db)"
    by (simp add: delete_rows_def)
  note ids = fire_triggers_ids [OF f]
  show ?thesis
  proof (rule well_formedI)
    show "distinct (map acc_id (accounts db'))"
      using well_formedD(1) [OF assms(1)] by (simp add: ids)
    show "distinct (map cat_id (categories db'))"
      using well_formedD(2) [OF assms(1)] by (simp add: c)
    show "distinct (map tx_id (transactions db'))"
      unfolding t by (rule distinct_map_filter) (rule well_formedD(3) [OF assms(1)])
    show "list_all (\<lambda>a. decimal_15_2 (initial_balance a) \<and> decimal_15_2 (current_balance a)) (accounts db')"
      by (rule fire_triggers_fits [OF f well_formedD(4) [OF assms(1)]])
    show "decimal_15_2 (amount t)" if "t \<in> set (transactions db')" for t
      using that well_formedD(5) [OF assms(1), of t] by (simp add: t)
    show "account_id t \<in> set (map acc_id (accounts db'))" if "t \<in> set (transactions db')" for t
      using that well_formedD(6) [OF assms(1), of t] by (simp add: t ids)
    show "c' \<in> set (map cat_id (categories db'))"
      if "t \<in> set (transactions db')" and "category_id t = Some c'" for t c'
      using that well_formedD(7) [OF assms(1), of t c'] by (simp add: t c)
  qed
qed

lemma update_transaction_well_formed:
  assumes "well_formed db" and "update_transaction uid tid p db = Inr db'"
  shows "well_formed db'"
proof -
  let ?new = "\<lambda>ty amt OLD. case assign_row p ty amt OLD of
                     Inl e \<Rightarrow> Inl e
                   | Inr NEW \<Rightarrow> (case row_accepted uid db NEW of Some e \<Rightarrow> Inl e | None \<Rightarrow> Inr NEW)"
  from assms(2) obtain ty amt evs where ty: "coerce_type (set_type p) = Inr ty"
    and amt: "coerce_amount (set_amount p) = Inr amt"
    and u: "update_rows (\<lambda>r. tx_id r = tid \<and> tx_user_id r = uid) (?new ty amt)
              (transactions db) = Inr (transactions db', evs)"
    and f: "fire_triggers evs (accounts db) = Inr (accounts db')"
    and c: "categories db' = categories db"
    by (rule update_transaction_Inr)
  note ids = fire_triggers_ids [OF f]
  have new: "assign_row p ty amt OLD = Inr NEW \<and> row_accepted uid db NEW = None"
    if "?new ty amt OLD = Inr NEW" for OLD NEW
    using that by (auto split: sum.splits option.splits)
  let ?ok = "\<lambda>t. decimal_15_2 (amount t) \<and> account_id t \<in> set (map acc_id (accounts db)) \<and>
                  (\<forall>k. category_id t = Some k \<longrightarrow> k \<in> set (map cat_id (categories db)))"
  have "list_all ?ok (transactions db)"
    using well_formedD(5,6,7) [OF assms(1)] by (simp add: list_all_iff)
  with u have "list_all ?ok (transactions db')"
  proof (rule update_rows_all)
    fix OLD NEW
    assume old: "?ok OLD" and "?new ty amt OLD = Inr NEW"
    then have a: "assign_row p ty amt OLD = Inr NEW" and r: "row_accepted uid db NEW = None"
      by (simp_all add: new)
    from coerce_amount_Inr(1) [OF amt assign_row_Inr(5) [OF a]] old
    have "decimal_15_2 (amount NEW)" by simp
    with row_accepted_None(2,3) [OF r] show "?ok NEW"
      by (auto split: option.splits)
  qed
  then have ok: "?ok t" if "t \<in> set (transactions db')" for t
    using that by (simp add: list_all_iff)
  show ?thesis
  proof (rule well_formedI)
    show "distinct (map acc_id (accounts db'))"
      using well_formedD(1) [OF assms(1)] by (simp add: ids)
    show "distinct (map cat_id (categories db'))"
      using well_formedD(2) [OF assms(1)] by (simp add: c)
    have "map tx_id (transactions db') = map tx_id (transactions db)"
      by (rule update_rows_ids [OF u]) (auto dest!: new assign_row_Inr(1))
    then show "distinct (map tx_id (transactions db'))"
      using well_formedD(3) [OF assms(1)] by simp
    show "list_all (\<lambda>a. decimal_15_2 (initial_balance a) \<and> decimal_15_2 (current_balance a)) (accounts db')"
      by (rule fire_triggers_fits [OF f well_formedD(4) [OF assms(1)]])
    show "decimal_15_2 (amount t)" if "t \<in> set (transactions db')" for t
      using ok [OF that] by simp
    show "account_id t \<in> set (map acc_id (accounts db'))" if "t \<in> set (transactions db')" for t
      using ok [OF that] by (simp add: ids)
    show "c' \<in> set (map cat_id (categories db'))"
      if "t \<in> set (transactions db')" and "category_id t = Some c'" for t c'
      using ok [OF that(1)] that(2) by (simp add: c)
  qed
qed

lemma delete_account_well_formed:
  assumes "well_formed db" and "delete_account uid aid db = Inr db'"
  shows "well_formed db'"
proof (cases "list_ex (\<lambda>a. acc_id a = aid \<and> acc_user_id a = uid) (accounts db)")
  case False
  with assms show ?thesis by (simp add: delete_account_def)
next
  case True
  then obtain a where a: "a \<in> set (accounts db)" "acc_id a = aid" "acc_user_id a = uid"
    by (auto simp: list_ex_iff)
  from delete_account_result [OF assms(1) a(1,3)] assms(2) a(2)
  have db': "db' = db\<lparr>accounts := filter (\<lambda>b. acc_id b \<noteq> aid) (accounts db),
                   transactions := filter (\<lambda>t. account_id t \<noteq> aid) (transactions db)\<rparr>"
    by simp
  show ?thesis
  proof (rule well_formedI)
    show "distinct (map acc_id (accounts db'))"
      using well_formedD(1) [OF assms(1)] by (simp add: db' distinct_map_filter)
    show "distinct (map tx_id (transactions db'))"
      using well_formedD(3) [OF assms(1)] by (simp add: db' distinct_map_filter)
    show "list_all (\<lambda>a. decimal_15_2 (initial_balance a) \<and> decimal_15_2 (current_balance a)) (accounts db')"
      using well_formedD(4) [OF assms(1)] by (simp add: db' list_all_iff)
    show "account_id t \<in> set (map acc_id (accounts db'))" if "t \<in> set (transactions db')" for t
      using that well_formedD(6) [OF assms(1), of t] by (auto simp: db')
  qed (use well_formedD [OF assms(1)] in \<open>auto simp: db'\<close>)
qed

lemma delete_category_Inr:
  assumes "list_ex (\<lambda>k. cat_id k = cid \<and> cat_user_id k = uid) (categories db)"
    and "delete_category uid cid db = Inr db'"
  shows "fire_triggers
           (map (\<lambda>t. UPDATE t (t\<lparr>category_id := None\<rparr>))
              (filter (\<lambda>r. category_id r = Some cid) (transactions db)))
           (accounts db) = Inr (accounts db')"
    and "categories db' = filter (\<lambda>k. \<not> (cat_id k = cid \<and> cat_user_id k = uid)) (categories db)"
    and "transactions db' =
           map (\<lambda>t. if category_id t = Some cid then t\<lparr>category_id := None\<rparr> else t) (transactions db)"
  using assms
  by (auto simp: delete_category_def update_rows_set_null split: sum.splits)

lemma delete_category_well_formed:
  assumes "well_formed db" and "delete_category uid cid db = Inr db'"
  shows "well_formed db'"
proof (cases "list_ex (\<lambda>k. cat_id k = cid \<and> cat_user_id k = uid) (categories db)")
  case False
  with assms show ?thesis by (simp add: delete_category_def)
next
  case True
  note db' = delete_category_Inr [OF True assms(2)]
  note ids = fire_triggers_ids [OF db'(1)]
  from True obtain k where k: "k \<in> set (categories db)" "cat_id k = cid" "cat_user_id k = uid"
    by (auto simp: list_ex_iff)
  have only: "j = k" if "j \<in> set (categories db)" and "cat_id j = cid" for j
    using well_formedD(2) [OF assms(1)] k(1,2) that by (meson distinct_map inj_onD)
  show ?thesis
  proof (rule well_formedI)
    show "distinct (map acc_id (accounts db'))"
      using well_formedD(1) [OF assms(1)] by (simp add: ids)
    show "distinct (map cat_id (categories db'))"
      using well_formedD(2) [OF assms(1)] by (simp add: db'(2) distinct_map_filter)
    have "map tx_id (transactions db') = map tx_id (transactions db)"
      by (simp add: db'(3) o_def if_distrib [of tx_id] cong: if_cong)
    then show "distinct (map tx_id (transactions db'))"
      using well_formedD(3) [OF assms(1)] by simp
    show "list_all (\<lambda>a. decimal_15_2 (initial_balance a) \<and> decimal_15_2 (current_balance a)) (accounts db')"
      by (rule fire_triggers_fits [OF db'(1) well_formedD(4) [OF assms(1)]])
    show "decimal_15_2 (amount t)" if "t \<in> set (transactions db')" for t
      using that well_formedD(5) [OF assms(1)] by (auto simp: db'(3))
    show "account_id t \<in> set (map acc_id (accounts db'))" if "t \<in> set (transactions db')" for t
      using that well_formedD(6) [OF assms(1)] by (auto simp: db'(3) ids)
    show "c' \<in> set (map cat_id (categories db'))"
      if "t \<in> set (transactions db')" and "category_id t = Some c'" for t c'
    proof -
      from that obtain t0 where t0: "t0 \<in> set (transactions db)" "category_id t0 = Some c'" "c' \<noteq> cid"
        by (auto simp: db'(3) split: if_splits)
      from well_formedD(7) [OF assms(1) t0(1,2)] obtain j where
        j: "j \<in> set (categories db)" "cat_id j = c'" by auto
      with t0(3) show ?thesis by (auto simp: db'(2))
    qed
  qed
qed

lemma execute_well_formed:
  assumes "well_formed db" and "execute uid q db = Inr db'"
  shows "well_formed db'"
  using assms
  by (cases q)
    (auto intro: insert_account_well_formed delete_account_well_formed insert_category_well_formed
      delete_category_well_formed insert_transaction_well_formed update_transaction_well_formed
      delete_transaction_well_formed)

lemma after_statement_well_formed:
  "well_formed db \<Longrightarrow> well_formed (after_statement uid q db)"
  by (cases "execute uid q db") (auto simp: after_statement_def intro: execute_well_formed)

lemma history_well_formed:
  "well_formed db \<Longrightarrow> db' \<in> set (history db qs) \<Longrightarrow> well_formed db'"
proof (induction qs arbitrary: db)
  case Nil
  then show ?case by simp
next
  case (Cons uq qs)
  obtain uid q where uq: "uq = (uid, q)" by (cases uq)
  from Cons.prems(1) have step: "well_formed (after_statement uid q db)"
    by (rule after_statement_well_formed)
  from Cons.prems(2) uq consider "db' = after_statement uid q db"
    | "db' \<in> set (history (after_statement uid q db) qs)" by auto
  then show ?case
    using step Cons.IH [OF step] by cases simp_all
qed

section \<open>A balance that is not a number stays so\<close>

text \<open>
  Every statement keeps what the trigger has done to the account of a transaction with
  the amount \<^verbatim>\<open>NaN\<close>: no arithmetic brings the balance back to a number, and the row that
  carries the amount can only go to an account whose balance the trigger makes \<^verbatim>\<open>NaN\<close>
  in the same statement.
\<close>

lemma nan_absorbedI:
  assumes "\<And>t a. t \<in> set (transactions db) \<Longrightarrow> amount t = NaN \<Longrightarrow> a \<in> set (accounts db) \<Longrightarrow>
             acc_id a = account_id t \<Longrightarrow> current_balance a = NaN"
  shows "nan_absorbed db"
  using assms by (auto simp: nan_absorbed_def list_all_iff)

lemma empty_nan_absorbed: "nan_absorbed empty_database"
  by (simp add: nan_absorbed_def empty_database_def)

lemma number_amounts_absorbed: "number_amounts db \<Longrightarrow> nan_absorbed db"
  by (auto simp: number_amounts_def nan_absorbed_def list_all_iff)

lemma writes_NaN:
  assumes "ev \<in> set evs" and "ev = INSERT NEW \<or> ev = UPDATE OLD NEW"
    and "amount NEW = NaN" and "acc_id a = account_id NEW"
  shows "current_balance (apply_events evs a) = NaN"
  using assms(1,4)
proof (induction evs arbitrary: a)
  case Nil
  then show ?case by simp
next
  case (Cons e evs)
  show ?case
  proof (cases "e = ev")
    case True
    from assms(3) have "contribution NEW = NaN"
      by (simp add: contribution_NaN)
    with assms(2) True Cons.prems(2) have "current_balance (apply_event e a) = NaN"
      by (auto simp: bump_def)
    then show ?thesis by simp
  next
    case False
    with Cons.prems have "ev \<in> set evs" and "acc_id (apply_event e a) = account_id NEW"
      by simp_all
    then have "current_balance (apply_events evs (apply_event e a)) = NaN"
      by (rule Cons.IH)
    then show ?thesis by simp
  qed
qed

lemma nan_absorbed_step:
  assumes "nan_absorbed db" and "accounts db' = map (apply_events evs) (accounts db)"
    and "\<And>t. t \<in> set (transactions db') \<Longrightarrow> amount t = NaN \<Longrightarrow>
           (\<exists>t0 \<in> set (transactions db). amount t0 = NaN \<and> account_id t0 = account_id t) \<or>
           INSERT t \<in> set evs \<or> (\<exists>OLD. UPDATE OLD t \<in> set evs)"
  shows "nan_absorbed db'"
proof (rule nan_absorbedI)
  fix t a'
  assume t: "t \<in> set (transactions db')" "amount t = NaN"
    and a': "a' \<in> set (accounts db')" "acc_id a' = account_id t"
  from a'(1) assms(2) obtain a where a: "a \<in> set (accounts db)" "a' = apply_events evs a"
    by auto
  with a'(2) have id: "acc_id a = account_id t" by simp
  from assms(3) [OF t] consider
    t0 where "t0 \<in> set (transactions db)" "amount t0 = NaN" "account_id t0 = account_id t"
    | "INSERT t \<in> set evs" | OLD where "UPDATE OLD t \<in> set evs"
    by blast
  then have "current_balance (apply_events evs a) = NaN"
  proof cases
    case 1
    with assms(1) a(1) id have "current_balance a = NaN"
      by (intro nan_absorbedD [of db t0 a]) simp_all
    then show ?thesis by simp
  next
    case 2
    then show ?thesis
      by (rule writes_NaN [where NEW = t and OLD = t]) (simp_all add: t(2) id)
  next
    case 3
    then show ?thesis
      by (rule writes_NaN [where NEW = t and OLD = OLD]) (simp_all add: t(2) id)
  qed
  with a(2) show "current_balance a' = NaN" by simp
qed

lemma update_rows_row:
  "update_rows affected new txs = Inr (rows, evs) \<Longrightarrow> r \<in> set rows \<Longrightarrow>
     r \<in> set txs \<or> (\<exists>OLD. UPDATE OLD r \<in> set evs)"
proof (induction txs arbitrary: rows evs)
  case Nil
  then show ?case by simp
next
  case (Cons OLD txs)
  then show ?case
    by (cases "affected OLD") (fastforce split: sum.splits)+
qed

lemma insert_transaction_absorbed:
  assumes "nan_absorbed db" and "insert_transaction uid v db = Inr db'"
  shows "nan_absorbed db'"
proof -
  from assms(2) obtain NEW where
    f: "fire_triggers [INSERT NEW] (accounts db) = Inr (accounts db')"
    and t: "transactions db' = transactions db @ [NEW]"
    by (rule insert_transaction_Inr)
  show ?thesis
    by (rule nan_absorbed_step [OF assms(1) fire_triggers_result [OF f]]) (auto simp: t)
qed

lemma update_transaction_absorbed:
  assumes "nan_absorbed db" and "update_transaction uid tid p db = Inr db'"
  shows "nan_absorbed db'"
proof -
  from assms(2) obtain ty amt evs where
    u: "update_rows (\<lambda>r. tx_id r = tid \<and> tx_user_id r = uid)
          (\<lambda>OLD. case assign_row p ty amt OLD of
                     Inl e \<Rightarrow> Inl e
                   | Inr NEW \<Rightarrow> (case row_accepted uid db NEW of Some e \<Rightarrow> Inl e | None \<Rightarrow> Inr NEW))
          (transactions db) = Inr (transactions db', evs)"
    and f: "fire_triggers evs (accounts db) = Inr (accounts db')"
    by (rule update_transaction_Inr)
  show ?thesis
  proof (rule nan_absorbed_step [OF assms(1) fire_triggers_result [OF f]])
    fix t assume "t \<in> set (transactions db')" and "amount t = NaN"
    with update_rows_row [OF u]
    show "(\<exists>t0 \<in> set (transactions db). amount t0 = NaN \<and> account_id t0 = account_id t) \<or>
           INSERT t \<in> set evs \<or> (\<exists>OLD. UPDATE OLD t \<in> set evs)"
      by blast
  qed
qed

lemma delete_transaction_absorbed:
  assumes "nan_absorbed db" and "delete_transaction uid tid db = Inr db'"
  shows "nan_absorbed db'"
proof -
  from assms(2) obtain evs where
    d: "delete_rows (\<lambda>r. tx_id r = tid \<and> tx_user_id r = uid) (transactions db) = (transactions db', evs)"
    and f: "fire_triggers evs (accounts db) = Inr (accounts db')"
    by (rule delete_transaction_Inr)
  from d have t: "transactions db' = filter (\<lambda>r. \<not> (tx_id r = tid \<and> tx_user_id r = uid)) (transactions db)"
    by (simp add: delete_rows_def)
  show ?thesis
    by (rule nan_absorbed_step [OF assms(1) fire_triggers_result [OF f]]) (auto simp: t)
qed

lemma delete_category_absorbed:
  assumes "nan_absorbed db" and "delete_category uid cid db = Inr db'"
  shows "nan_absorbed db'"
proof (cases "list_ex (\<lambda>k. cat_id k = cid \<and> cat_user_id k = uid) (categories db)")
  case False
  with assms show ?thesis by (simp add: delete_category_def)
next
  case True
  note db' = delete_category_Inr [OF True assms(2)]
  show ?thesis
    by (rule nan_absorbed_step [OF assms(1) fire_triggers_result [OF db'(1)]])
      (auto simp: db'(3) split: if_splits)
qed

lemma insert_category_absorbed:
  assumes "nan_absorbed db" and "insert_category uid v db = Inr db'"
  shows "nan_absorbed db'"
  using assms
  by (auto simp: insert_category_def nan_absorbed_def split: sum.splits if_splits)

lemma insert_account_absorbed:
  assumes "well_formed db" and "nan_absorbed db" and "insert_account uid v db = Inr db'"
  shows "nan_absorbed db'"
proof -
  from assms(3) have fresh: "av_id v \<notin> acc_id ` set (accounts db)"
    and db': "db' = db\<lparr>accounts := accounts db @
                   [\<lparr>acc_id = av_id v, acc_user_id = av_user_id v,
                     initial_balance = av_initial_balance v,
                     current_balance = av_current_balance v\<rparr>]\<rparr>"
    by (auto simp: insert_account_def split: if_splits)
  have other: "account_id t \<noteq> av_id v" if "t \<in> set (transactions db)" for t
    using well_formedD(6) [OF assms(1) that] fresh by (metis list.set_map)
  show ?thesis
  proof (rule nan_absorbedI)
    fix t a
    assume "t \<in> set (transactions db')" and "amount t = NaN" and "a \<in> set (accounts db')"
      and "acc_id a = account_id t"
    with other [of t] assms(2) show "current_balance a = NaN"
      by (auto simp: db' dest: nan_absorbedD)
  qed
qed

lemma delete_account_absorbed:
  assumes "well_formed db" and "nan_absorbed db" and "delete_account uid aid db = Inr db'"
  shows "nan_absorbed db'"
proof (cases "list_ex (\<lambda>a. acc_id a = aid \<and> acc_user_id a = uid) (accounts db)")
  case False
  with assms show ?thesis by (simp add: delete_account_def)
next
  case True
  then obtain a where a: "a \<in> set (accounts db)" "acc_id a = aid" "acc_user_id a = uid"
    by (auto simp: list_ex_iff)
  from delete_account_result [OF assms(1) a(1,3)] assms(3) a(2)
  have db': "db' = db\<lparr>accounts := filter (\<lambda>b. acc_id b \<noteq> aid) (accounts db),
                   transactions := filter (\<lambda>t. account_id t \<noteq> aid) (transactions db)\<rparr>"
    by simp
  show ?thesis
  proof (rule nan_absorbedI)
    fix t b
    assume "t \<in> set (transactions db')" and "amount t = NaN" and "b \<in> set (accounts db')"
      and "acc_id b = account_id t"
    with assms(2) show "current_balance b = NaN"
      by (auto simp: db' dest: nan_absorbedD)
  qed
qed

lemma execute_absorbed:
  assumes "well_formed db" and "nan_absorbed db" and "execute uid q db = Inr db'"
  shows "nan_absorbed db'"
  using assms
  by (cases q)
    (auto intro: insert_account_absorbed delete_account_absorbed insert_category_absorbed
      delete_category_absorbed insert_transaction_absorbed update_transaction_absorbed
      delete_transaction_absorbed)

lemma after_statement_absorbed:
  "well_formed db \<Longrightarrow> nan_absorbed db \<Longrightarrow> nan_absorbed (after_statement uid q db)"
  by (cases "execute uid q db") (auto simp: after_statement_def intro: execute_absorbed)

lemma history_absorbed:
  "well_formed db \<Longrightarrow> nan_absorbed db \<Longrightarrow> db' \<in> set (history db qs) \<Longrightarrow> nan_absorbed db'"
proof (induction qs arbitrary: db)
  case Nil
  then show ?case by simp
next
  case (Cons uq qs)
  obtain uid q where uq: "uq = (uid, q)" by (cases uq)
  from Cons.prems(1) have wf: "well_formed (after_statement uid q db)"
    by (rule after_statement_well_formed)
  from Cons.prems(1,2) have step: "nan_absorbed (after_statement uid q db)"
    by (rule after_statement_absorbed)
  from Cons.prems(3) uq consider "db' = after_statement uid q db"
    | "db' \<in> set (history (after_statement uid q db) qs)" by auto
  then show ?case
    using step Cons.IH [OF wf step] by cases simp_all
qed

section \<open>Every state the application reaches is consistent\<close>

text \<open>
  The remaining statements keep the invariant as well, provided accounts are opened the
  way the account form opens them, with both balances equal. So every database reached
  from the empty one is well formed, with \<^verbatim>\<open>NaN\<close> amounts absorbed by their accounts; and
  when the amounts supplied are numbers, it has every balance in step with its
  transactions. The hypotheses of the theorems above hold wherever the statements can
  get.
\<close>

lemma tally_unreferenced:
  "\<forall>t \<in> set txs. account_id t \<noteq> aid \<Longrightarrow> tally txs aid = Num 0"
  by (induction txs) (simp_all add: tally_Cons)

lemma tally_filter_other:
  "aid \<noteq> gone \<Longrightarrow> tally (filter (\<lambda>t. account_id t \<noteq> gone) txs) aid = tally txs aid"
  by (induction txs) (auto simp: tally_Cons)

lemma tally_clear_category:
  "tally (map (\<lambda>t. if category_id t = Some cid then t\<lparr>category_id := None\<rparr> else t) txs) aid = tally txs aid"
  by (induction txs) (simp_all add: tally_Cons contribution_def)

lemma insert_account_consistent:
  assumes "well_formed db" and "balances_consistent db"
    and "av_current_balance v = av_initial_balance v" and "insert_account uid v db = Inr db'"
  shows "balances_consistent db'" and "transactions db' = transactions db"
proof -
  from assms(4) have fresh: "av_id v \<notin> acc_id ` set (accounts db)"
    and db': "db' = db\<lparr>accounts := accounts db @
                   [\<lparr>acc_id = av_id v, acc_user_id = av_user_id v,
                     initial_balance = av_initial_balance v,
                     current_balance = av_current_balance v\<rparr>]\<rparr>"
    by (auto simp: insert_account_def split: if_splits)
  have "\<forall>t \<in> set (transactions db). account_id t \<noteq> av_id v"
    using well_formedD(6) [OF assms(1)] fresh by (metis list.set_map)
  then have "tally (transactions db) (av_id v) = Num 0"
    by (rule tally_unreferenced)
  with assms(2,3) show "balances_consistent db'"
    by (simp add: balances_consistent_def db')
  show "transactions db' = transactions db"
    by (simp add: db')
qed

lemma delete_account_consistent:
  assumes "well_formed db" and "balances_consistent db" and "delete_account uid aid db = Inr db'"
  shows "balances_consistent db'" and "set (transactions db') \<subseteq> set (transactions db)"
proof -
  have "balances_consistent db' \<and> set (transactions db') \<subseteq> set (transactions db)"
  proof (cases "list_ex (\<lambda>a. acc_id a = aid \<and> acc_user_id a = uid) (accounts db)")
    case False
    with assms show ?thesis by (simp add: delete_account_def)
  next
    case True
    then obtain a where a: "a \<in> set (accounts db)" "acc_id a = aid" "acc_user_id a = uid"
      by (auto simp: list_ex_iff)
    from delete_account_result [OF assms(1) a(1,3)] assms(3) a(2)
    have db': "db' = db\<lparr>accounts := filter (\<lambda>b. acc_id b \<noteq> aid) (accounts db),
                     transactions := filter (\<lambda>t. account_id t \<noteq> aid) (transactions db)\<rparr>"
      by simp
    from assms(2) show ?thesis
      by (auto simp: balances_consistent_def list_all_iff db' tally_filter_other)
  qed
  then show "balances_consistent db'" and "set (transactions db') \<subseteq> set (transactions db)"
    by simp_all
qed

lemma insert_category_consistent:
  assumes "balances_consistent db" and "insert_category uid v db = Inr db'"
  shows "balances_consistent db'" and "transactions db' = transactions db"
  using assms
  by (auto simp: insert_category_def balances_consistent_def split: sum.splits if_splits)

lemma delete_category_consistent:
  assumes "balances_consistent db" and "number_amounts db" and "delete_category uid cid db = Inr db'"
  shows "balances_consistent db'" and "number_amounts db'"
proof -
  have "balances_consistent db' \<and> number_amounts db'"
  proof (cases "list_ex (\<lambda>k. cat_id k = cid \<and> cat_user_id k = uid) (categories db)")
    case False
    with assms show ?thesis by (simp add: delete_category_def)
  next
    case True
    note db' = delete_category_result [OF number_amounts_absorbed [OF assms(2)] True assms(3)]
    from assms(1) have "balances_consistent db'"
      by (simp add: balances_consistent_def db' tally_clear_category)
    moreover from assms(2) have "number_amounts db'"
      by (auto simp: number_amounts_def db' list_all_iff)
    ultimately show ?thesis ..
  qed
  then show "balances_consistent db'" and "number_amounts db'"
    by simp_all
qed

lemma execute_consistent:
  assumes "well_formed db" and "balances_consistent db" and "number_amounts db"
    and "opens_balanced q" and "supplies_number q" and "execute uid q db = Inr db'"
  shows "balances_consistent db' \<and> number_amounts db'"
proof (cases q)
  case (INSERT_INTO_accounts v)
  with assms insert_account_consistent [of db v uid db'] show ?thesis
    by (simp add: number_amounts_def)
next
  case (DELETE_FROM_accounts aid)
  with assms delete_account_consistent [of db uid aid db'] show ?thesis
    by (auto simp: number_amounts_def list_all_iff)
next
  case (INSERT_INTO_categories v)
  with assms insert_category_consistent [of db uid v db'] show ?thesis
    by (simp add: number_amounts_def)
next
  case (DELETE_FROM_categories cid)
  with assms delete_category_consistent [of db uid cid db'] show ?thesis
    by simp
next
  case (INSERT_INTO_transactions v)
  with assms insert_transaction_consistent [of db v uid db'] show ?thesis
    by simp
next
  case (UPDATE_transactions tid p)
  with assms update_transaction_consistent [of db p uid tid db'] show ?thesis
    by simp
next
  case (DELETE_FROM_transactions tid)
  with assms delete_transaction_consistent [of db uid tid db'] show ?thesis
    by simp
qed

lemma after_statement_consistent:
  assumes "well_formed db" and "balances_consistent db" and "number_amounts db"
    and "opens_balanced q" and "supplies_number q"
  shows "balances_consistent (after_statement uid q db) \<and> number_amounts (after_statement uid q db)"
proof (cases "execute uid q db")
  case (Inl e)
  with assms(2,3) show ?thesis by (simp add: after_statement_def)
next
  case (Inr db')
  with execute_consistent [OF assms Inr] show ?thesis by (simp add: after_statement_def)
qed

lemma empty_consistent: "balances_consistent empty_database \<and> number_amounts empty_database"
  by (simp add: balances_consistent_def number_amounts_def empty_database_def)

lemma history_consistent:
  assumes "well_formed db" and "balances_consistent db \<and> number_amounts db"
    and "\<forall>(uid, q) \<in> set qs. opens_balanced q \<and> supplies_number q" and "db' \<in> set (history db qs)"
  shows "balances_consistent db' \<and> number_amounts db'"
  using assms
proof (induction qs arbitrary: db)
  case Nil
  then show ?case by simp
next
  case (Cons uq qs)
  obtain uid q where uq: "uq = (uid, q)" by (cases uq)
  from Cons.prems(1) have wf: "well_formed (after_statement uid q db)"
    by (rule after_statement_well_formed)
  from Cons.prems uq
  have step: "balances_consistent (after_statement uid q db) \<and> number_amounts (after_statement uid q db)"
    by (intro after_statement_consistent) simp_all
  from Cons.prems(4) uq consider "db' = after_statement uid q db"
    | "db' \<in> set (history (after_statement uid q db) qs)" by auto
  then show ?case
  proof cases
    case 1
    with step show ?thesis by simp
  next
    case 2
    with Cons.IH [OF wf step] Cons.prems(3) show ?thesis by simp
  qed
qed

lemma reachable_state:
  assumes "db \<in> set (history empty_database qs)"
  shows "well_formed db \<and> nan_absorbed db"
  using assms history_well_formed [OF empty_well_formed]
    history_absorbed [OF empty_well_formed empty_nan_absorbed]
  by blast

lemma reachable_with_numbers:
  assumes "\<forall>(uid, q) \<in> set qs. opens_balanced q \<and> supplies_number q"
    and "db \<in> set (history empty_database qs)"
  shows "balances_consistent db \<and> number_amounts db"
  using assms history_consistent [OF empty_well_formed empty_consistent]
  by blast

end
